theory Spec2Isabelle
  imports Complex_Main "HOL-Library.Log_Nat"
begin

section \<open>JavaScript values used by App.jsx\<close>

subsection \<open>Numbers\<close>

text \<open>
  A JavaScript number is a binary64 value: a finite one, an infinity, or NaN. A finite
  number is given by its exact value, a rational; the two zeroes are one value here,
  since nothing in the source tells them apart (both are falsy, \<open>toFixed\<close> prints both
  as \<open>0.00\<close>, and no number is divided by a variable that can be zero).
\<close>

datatype number = Finite rat | PosInfinity | NegInfinity | NaN

text \<open>The exponent of the power of two at or below a positive rational.\<close>

definition ilog2 :: "rat \<Rightarrow> int" where
  "ilog2 a =
     (let (p, q) = quotient_of a; k = bitlen p - bitlen q
      in if 2 powi k \<le> a then k else k - 1)"

text \<open>The nearest integer, the even one of two nearest.\<close>

definition round_half_even :: "rat \<Rightarrow> int" where
  "round_half_even r =
     (let f = \<lfloor>r\<rfloor>; d = r - of_int f
      in if d < 1 / 2 then f else if 1 / 2 < d then f + 1 else if even f then f else f + 1)"

text \<open>
  The result of an arithmetic operation is its exact value rounded to binary64, to
  nearest, ties to even: a significand of 53 bits, which is \<open>m\<close> below, over the unit
  \<open>2 powi e\<close> with \<open>e\<close> from \<open>-1074\<close> (the subnormal numbers) to 971; a result that needs
  a larger exponent is an infinity.
\<close>

definition round64 :: "rat \<Rightarrow> number" where
  "round64 x =
     (if x = 0 then Finite 0
      else
        let a = \<bar>x\<bar>;
            e = max (ilog2 a - 52) (- 1074);
            m = round_half_even (a / 2 powi e);
            v = of_int m * 2 powi e
        in if 971 < e \<or> (e = 971 \<and> 2 ^ 53 \<le> m)
           then (if 0 < x then PosInfinity else NegInfinity)
           else Finite (if 0 < x then v else - v))"

text \<open>\<open>x + y\<close>\<close>

fun fadd :: "number \<Rightarrow> number \<Rightarrow> number" where
  "fadd (Finite x) (Finite y) = round64 (x + y)"
| "fadd NaN _ = NaN"
| "fadd _ NaN = NaN"
| "fadd PosInfinity NegInfinity = NaN"
| "fadd NegInfinity PosInfinity = NaN"
| "fadd PosInfinity _ = PosInfinity"
| "fadd NegInfinity _ = NegInfinity"
| "fadd _ PosInfinity = PosInfinity"
| "fadd _ NegInfinity = NegInfinity"

text \<open>\<open>x * y\<close>\<close>

fun fmul :: "number \<Rightarrow> number \<Rightarrow> number" where
  "fmul (Finite x) (Finite y) = round64 (x * y)"
| "fmul NaN _ = NaN"
| "fmul _ NaN = NaN"
| "fmul PosInfinity (Finite y) = (if y = 0 then NaN else if 0 < y then PosInfinity else NegInfinity)"
| "fmul NegInfinity (Finite y) = (if y = 0 then NaN else if 0 < y then NegInfinity else PosInfinity)"
| "fmul (Finite x) PosInfinity = (if x = 0 then NaN else if 0 < x then PosInfinity else NegInfinity)"
| "fmul (Finite x) NegInfinity = (if x = 0 then NaN else if 0 < x then NegInfinity else PosInfinity)"
| "fmul PosInfinity PosInfinity = PosInfinity"
| "fmul PosInfinity NegInfinity = NegInfinity"
| "fmul NegInfinity PosInfinity = NegInfinity"
| "fmul NegInfinity NegInfinity = PosInfinity"

text \<open>
  \<open>x / y\<close>. The divisors of the source are 149598000 and the length of a non-empty
  array; a divisor zero, which they never are, is taken as the positive zero.
\<close>

fun fdiv :: "number \<Rightarrow> number \<Rightarrow> number" where
  "fdiv (Finite x) (Finite y) =
     (if y = 0 then (if x = 0 then NaN else if 0 < x then PosInfinity else NegInfinity)
      else round64 (x / y))"
| "fdiv NaN _ = NaN"
| "fdiv _ NaN = NaN"
| "fdiv PosInfinity (Finite y) = (if 0 \<le> y then PosInfinity else NegInfinity)"
| "fdiv NegInfinity (Finite y) = (if 0 \<le> y then NegInfinity else PosInfinity)"
| "fdiv (Finite x) _ = Finite 0"
| "fdiv _ _ = NaN"

text \<open>The truthiness of a number: zero and NaN are falsy.\<close>

fun truthy :: "number \<Rightarrow> bool" where
  "truthy (Finite x) = (x \<noteq> 0)"
| "truthy NaN = False"
| "truthy PosInfinity = True"
| "truthy NegInfinity = True"

subsection \<open>Values and errors\<close>

text \<open>
  The fields that the statistics read hold a number or a string: \<open>diameter\<close> is
  \<open>body.meanRadius * 2\<close> or the string \<open>'Unknown'\<close>, \<open>distanceFromSun\<close> is the string
  returned by \<open>toFixed(2)\<close> or \<open>'Unknown'\<close>. A string is a list of code units; \<open>char\<close>
  covers the code units 0 to 255 (Basic Latin and Latin-1 Supplement).
\<close>

datatype jsval = JNum number | JStr string

datatype js_error = TypeError

subsection \<open>String.prototype.toLowerCase\<close>

text \<open>
  On the code units 0 to 255 the Unicode lower-case mapping moves \<open>A\<close>..\<open>Z\<close> (65..90) and
  the Latin-1 capitals 192..222 other than the multiplication sign 215 up by 32, and leaves
  every other code unit alone.
\<close>

definition is_upper :: "char \<Rightarrow> bool" where
  "is_upper c =
     (let n = (of_char c :: nat)
      in (65 \<le> n \<and> n \<le> 90) \<or> (192 \<le> n \<and> n \<le> 222 \<and> n \<noteq> 215))"

definition toLowerCase_char :: "char \<Rightarrow> char" where
  "toLowerCase_char c = (if is_upper c then char_of (of_char c + (32::nat)) else c)"

definition toLowerCase :: "string \<Rightarrow> string" where
  "toLowerCase s = map toLowerCase_char s"

subsection \<open>String.prototype.includes\<close>

text \<open>
  \<open>s.includes(searchString)\<close> looks for an index \<open>i\<close> with \<open>0 \<le> i \<le> len - searchLen\<close> at
  which the code units of \<open>searchString\<close> occur in \<open>s\<close>; there is no such index when
  \<open>searchString\<close> is longer than \<open>s\<close>.
\<close>

definition includes_js :: "string \<Rightarrow> string \<Rightarrow> bool" where
  "includes_js s searchString =
     (length searchString \<le> length s \<and>
      list_ex (\<lambda>i. take (length searchString) (drop i s) = searchString)
        [0 ..< Suc (length s - length searchString)])"

subsection \<open>Number.prototype.toFixed(2)\<close>

definition digit_char :: "int \<Rightarrow> char" where
  "digit_char d = char_of (48 + d)"

text \<open>
  The digits of the decimal representation of \<open>n \<ge> 0\<close>, with no leading zeroes; \<open>"0"\<close>
  for 0.
\<close>

function decimal_digits :: "int \<Rightarrow> string" where
  "decimal_digits n =
     (if n < 10 then [digit_char n]
      else decimal_digits (n div 10) @ [digit_char (n mod 10)])"
  by pat_completeness auto
termination
  by (relation "measure nat") auto

declare decimal_digits.simps [simp del]

text \<open>
  \<open>Number::toString\<close> for a finite \<open>x \<ge> 10^21\<close>, which is an integer of \<open>d \<ge> 22\<close>
  digits. The language asks for integers \<open>n\<close>, \<open>k\<close>, \<open>s\<close> with \<open>10^(k-1) \<le> s < 10^k\<close>, such
  that \<open>s * 10^(n-k)\<close> is \<open>x\<close> when rounded to binary64, and \<open>k\<close> as small as possible; of
  several \<open>s\<close> it recommends the one with \<open>s * 10^(n-k)\<close> nearest to \<open>x\<close>, the even one of
  two, which is what the engines print. The string is the first digit of \<open>s\<close>, a point
  and the other digits if there are any, \<open>e+\<close> and the digits of \<open>n - 1\<close>.
  \<open>shortest\<close> tries the lengths \<open>k\<close> upwards from the one given, with the two \<open>k\<close>-digit
  neighbours of \<open>x\<close>; 17 digits always suffice.
\<close>

definition round_trips :: "rat \<Rightarrow> int \<Rightarrow> rat \<Rightarrow> bool" where
  "round_trips x s scale \<longleftrightarrow> round64 (of_int s * scale) = Finite x"

fun shortest :: "nat \<Rightarrow> rat \<Rightarrow> int \<Rightarrow> int \<Rightarrow> int \<times> int" where
  "shortest fuel x d k =
     (let scale = 10 powi (d - k);
          lo = \<lfloor>x / scale\<rfloor>;
          hi = lo + 1;
          lo_ok = round_trips x lo scale;
          hi_ok = round_trips x hi scale;
          lo_err = x - of_int lo * scale;
          hi_err = of_int hi * scale - x;
          pick_lo = (lo_ok \<and> (\<not> hi_ok \<or> lo_err < hi_err \<or> (lo_err = hi_err \<and> even lo)))
      in if pick_lo then (lo, d)
         else if hi_ok then (if hi = 10 ^ nat k then (1, d + 1) else (hi, d))
         else (case fuel of 0 \<Rightarrow> (lo, d) | Suc fuel' \<Rightarrow> shortest fuel' x d (k + 1)))"

definition exponent_notation :: "rat \<Rightarrow> string" where
  "exponent_notation x =
     (let d = int (length (decimal_digits \<lfloor>x\<rfloor>));
          (s, n) = shortest 16 x d 1;
          ds = decimal_digits s
      in (case ds of [] \<Rightarrow> [] | [c] \<Rightarrow> [c] | c # cs \<Rightarrow> c # ''.'' @ cs)
         @ ''e+'' @ decimal_digits (n - 1))"

text \<open>
  \<open>x.toFixed(2)\<close>, following the steps of the language definition. A value that is not
  finite is printed by name. Of a finite one the sign is split off; a magnitude of
  \<open>10^21\<close> or more is printed in exponent notation; otherwise \<open>n\<close> is the integer for
  which \<open>n / 100 - x\<close> is as close to zero as possible (the larger one of two), its digits
  are padded with zeroes to at least three, and a point is put before the last two.
\<close>

definition toFixed2 :: "number \<Rightarrow> string" where
  "toFixed2 x0 =
     (case x0 of
        NaN \<Rightarrow> ''NaN''
      | PosInfinity \<Rightarrow> ''Infinity''
      | NegInfinity \<Rightarrow> ''-Infinity''
      | Finite x0 \<Rightarrow>
         (let s = (if x0 < 0 then ''-'' else '''');
              x = (if x0 < 0 then - x0 else x0)
          in if 10 ^ 21 \<le> x then s @ exponent_notation x
             else
               let n = \<lfloor>x * 100 + 1 / 2\<rfloor>;
                   m = decimal_digits n;
                   k = length m;
                   m = (if k \<le> 2 then replicate (2 + 1 - k) (CHR ''0'') @ m else m);
                   k = (if k \<le> 2 then 2 + 1 else k);
                   a = take (k - 2) m;
                   b = drop (k - 2) m
               in s @ a @ ''.'' @ b))"

section \<open>The data\<close>

text \<open>
  A body of the catalogue as the code reads it. A field the payload may leave out is an
  option; \<open>None\<close> stands for a field that is absent or \<open>null\<close>. Of a moon entry the code
  reads nothing (only the length of the array), so its type is a parameter.
\<close>

record 'm raw_body =
  englishName :: "string option"
  isPlanet :: bool
  bodyType :: string
  semimajorAxis :: "number option"
  meanRadius :: "number option"
  moons :: "'m list option"
  discoveryDate :: "string option"

text \<open>
  An object of \<open>transformedData\<close>. Its fields are those of the object literal in the
  source (\<open>id\<close>, \<open>name\<close>, \<open>type\<close>, \<open>distanceFromSun\<close>, \<open>diameter\<close>, \<open>moons\<close>,
  \<open>discoveryYear\<close>), prefixed with \<open>o_\<close>. \<open>o_name = None\<close> is the value \<open>undefined\<close>.
\<close>

record celestial_object =
  o_id :: nat
  o_name :: "string option"
  o_type :: string
  o_distanceFromSun :: jsval
  o_diameter :: jsval
  o_moons :: nat
  o_discoveryYear :: string

section \<open>fetchSolarSystemData: the transformation\<close>

text \<open>
  The callback of \<open>.map((body, index) => ...)\<close>. A conditional \<open>v ? a : b\<close> and \<open>v || b\<close>
  test the truthiness of \<open>v\<close>: an absent field, the number 0 and the empty string are falsy;
  an array, also an empty one, is truthy.
\<close>

definition transform :: "'m raw_body \<Rightarrow> nat \<Rightarrow> celestial_object" where
  "transform body index =
     \<lparr> o_id = index + 1,
       o_name = englishName body,
       o_type = (if isPlanet body then ''planet'' else ''dwarf planet''),
       o_distanceFromSun =
         (case semimajorAxis body of
            None \<Rightarrow> JStr ''Unknown''
          | Some a \<Rightarrow>
              if truthy a then JStr (toFixed2 (fdiv a (Finite 149598000)))
              else JStr ''Unknown''),
       o_diameter =
         (case meanRadius body of
            None \<Rightarrow> JStr ''Unknown''
          | Some r \<Rightarrow> if truthy r then JNum (fmul r (Finite 2)) else JStr ''Unknown''),
       o_moons = (case moons body of None \<Rightarrow> 0 | Some ms \<Rightarrow> length ms),
       o_discoveryYear =
         (case discoveryDate body of
            None \<Rightarrow> ''Prehistoric''
          | Some d \<Rightarrow> if d \<noteq> [] then d else ''Prehistoric'') \<rparr>"

text \<open>
  \<open>data.bodies.filter(body => body.isPlanet || body.bodyType === 'Dwarf Planet')
     .slice(0, 15).map((body, index) => ...)\<close>
\<close>

definition transformedData :: "'m raw_body list \<Rightarrow> celestial_object list" where
  "transformedData bodies =
     map (\<lambda>(index, body). transform body index)
       (enumerate 0
          (take 15 (filter (\<lambda>body. isPlanet body \<or> bodyType body = ''Dwarf Planet'') bodies)))"

section \<open>The filter effect\<close>

text \<open>
  \<open>Array.prototype.filter\<close> with a callback that may throw: the first exception ends the
  call, and no array is returned.
\<close>

fun filter_js :: "('a \<Rightarrow> js_error + bool) \<Rightarrow> 'a list \<Rightarrow> js_error + 'a list" where
  "filter_js p [] = Inr []"
| "filter_js p (x # xs) =
     (case p x of
        Inl e \<Rightarrow> Inl e
      | Inr keep \<Rightarrow>
          (case filter_js p xs of
             Inl e \<Rightarrow> Inl e
           | Inr ys \<Rightarrow> Inr (if keep then x # ys else ys)))"

text \<open>
  The callback of the effect. \<open>object.name.toLowerCase()\<close> is evaluated first; reading the
  property \<open>toLowerCase\<close> of \<open>undefined\<close> throws a TypeError.
\<close>

definition matches :: "string \<Rightarrow> string \<Rightarrow> celestial_object \<Rightarrow> js_error + bool" where
  "matches searchTerm objectType object =
     (case o_name object of
        None \<Rightarrow> Inl TypeError
      | Some name \<Rightarrow>
          (let matchesSearch = includes_js (toLowerCase name) (toLowerCase searchTerm);
               matchesType = (objectType = ''all'' \<or> o_type object = objectType)
           in Inr (matchesSearch \<and> matchesType)))"

definition results :: "celestial_object list \<Rightarrow> string \<Rightarrow> string \<Rightarrow> js_error + celestial_object list" where
  "results celestialObjects searchTerm objectType =
     filter_js (matches searchTerm objectType) celestialObjects"

section \<open>The statistics\<close>

text \<open>
  The length of the array is a number; as a count below \<open>2^53\<close> it is exact.
\<close>

definition totalObjects :: "celestial_object list \<Rightarrow> nat" where
  "totalObjects celestialObjects = length celestialObjects"

definition averageDiameter :: "celestial_object list \<Rightarrow> jsval" where
  "averageDiameter celestialObjects =
     (if length celestialObjects > 0
      then JStr (toFixed2
             (fdiv
                (foldl (\<lambda>sum obj.
                          let diameter =
                                (case o_diameter obj of JNum d \<Rightarrow> d | JStr _ \<Rightarrow> Finite 0)
                          in fadd sum diameter) (Finite 0) celestialObjects)
                (Finite (of_nat (totalObjects celestialObjects)))))
      else JNum (Finite 0))"

definition totalMoons :: "celestial_object list \<Rightarrow> nat" where
  "totalMoons celestialObjects =
     (if length celestialObjects > 0
      then foldl (\<lambda>sum obj. sum + o_moons obj) 0 celestialObjects
      else 0)"

text \<open>
  The state of the component that the filter and the statistics read, and the three
  statistics of one render.
\<close>

record app_state =
  celestialObjects :: "celestial_object list"
  searchTerm :: string
  objectType :: string

definition statistics :: "app_state \<Rightarrow> nat \<times> jsval \<times> nat" where
  "statistics st =
     (totalObjects (celestialObjects st),
      averageDiameter (celestialObjects st),
      totalMoons (celestialObjects st))"

section \<open>Notions of the specification\<close>

text \<open>
  A record survives the first step when its planet flag is true or its body-type tag is
  the string \<open>Dwarf Planet\<close>, letter for letter.
\<close>

definition survives :: "'m raw_body \<Rightarrow> bool" where
  "survives body \<longleftrightarrow> isPlanet body \<or> bodyType body = ''Dwarf Planet''"

text \<open>
  Two code units are the same letter when case is ignored; a name contains a search
  string, case ignored, when the search string matches, letter by letter, a run of
  consecutive code units of the name.
\<close>

definition same_letter :: "char \<Rightarrow> char \<Rightarrow> bool" where
  "same_letter a b \<longleftrightarrow> toLowerCase_char a = toLowerCase_char b"

definition contains_ignoring_case :: "string \<Rightarrow> string \<Rightarrow> bool" where
  "contains_ignoring_case name search \<longleftrightarrow>
     (\<exists>i \<le> length name. list_all2 same_letter (take (length search) (drop i name)) search)"

text \<open>The filtering rule: the name contains the search string and the category fits.\<close>

definition visible :: "string \<Rightarrow> string \<Rightarrow> celestial_object \<Rightarrow> bool" where
  "visible search category ob \<longleftrightarrow>
     (case o_name ob of None \<Rightarrow> False | Some name \<Rightarrow> contains_ignoring_case name search)
     \<and> (category = ''all'' \<or> o_type ob = category)"

text \<open>
  The rationals that are binary64 values: a significand of at most 53 bits over a unit
  \<open>2 powi e\<close> with \<open>e\<close> from \<open>-1074\<close> to 971.
\<close>

definition is_binary64 :: "rat \<Rightarrow> bool" where
  "is_binary64 x \<longleftrightarrow>
     (\<exists>m e. \<bar>m\<bar> < 2 ^ 53 \<and> - 1074 \<le> e \<and> e \<le> 971 \<and> x = of_int m * 2 powi e)"

text \<open>
  The unit and the significand that rounding gives a positive rational: the rounded value
  is \<open>significand a * 2 powi unit_exponent a\<close>.
\<close>

definition unit_exponent :: "rat \<Rightarrow> int" where
  "unit_exponent a = max (ilog2 a - 52) (- 1074)"

definition significand :: "rat \<Rightarrow> int" where
  "significand a = round_half_even (a / 2 powi unit_exponent a)"

text \<open>
  What a diameter adds to the sum: its value, or zero for the sentinel. The sum of
  numbers is taken in binary64, from 0 and from left to right; the mean diameter is its
  binary64 quotient by the number of all entries.
\<close>

definition numeric_diameter :: "celestial_object \<Rightarrow> number" where
  "numeric_diameter ob = (case o_diameter ob of JNum d \<Rightarrow> d | JStr _ \<Rightarrow> Finite 0)"

definition binary64_sum :: "number list \<Rightarrow> number" where
  "binary64_sum xs = foldl fadd (Finite 0) xs"

definition mean_diameter :: "celestial_object list \<Rightarrow> number" where
  "mean_diameter ds =
     fdiv (binary64_sum (map numeric_diameter ds)) (Finite (of_nat (length ds)))"

text \<open>
  Rounding to two fraction digits, half away from zero: \<open>n\<close> hundredths are a value
  nearest to \<open>x\<close>, and of two nearest values the one of larger magnitude.
\<close>

definition rounds_half_away :: "rat \<Rightarrow> int \<Rightarrow> bool" where
  "rounds_half_away x n \<longleftrightarrow>
     \<bar>of_int n / 100 - x\<bar> \<le> 1 / 200 \<and>
     (\<bar>of_int n / 100 - x\<bar> = 1 / 200 \<longrightarrow> \<bar>x\<bar> < \<bar>of_int n / 100\<bar>)"

text \<open>
  The decimal numeral with exactly two fraction digits for \<open>n \<ge> 0\<close> hundredths: sign,
  the digits of the whole part, a point, the tenths and the hundredths digit.
\<close>

definition decimal2 :: "bool \<Rightarrow> int \<Rightarrow> string" where
  "decimal2 negative n =
     (if negative then ''-'' else []) @ decimal_digits (n div 100) @ ''.'' @
     [digit_char (n div 10 mod 10), digit_char (n mod 10)]"

text \<open>The signed number of hundredths that \<open>toFixed2\<close> prints in positional notation.\<close>

definition toFixed2_hundredths :: "rat \<Rightarrow> int" where
  "toFixed2_hundredths x = (if x < 0 then - \<lfloor>- x * 100 + 1 / 2\<rfloor> else \<lfloor>x * 100 + 1 / 2\<rfloor>)"

section \<open>Sample inputs\<close>

definition earth :: "unit raw_body" where
  "earth = \<lparr> englishName = Some ''Earth'', isPlanet = True, bodyType = ''Planet'',
             semimajorAxis = Some (Finite 149598023), meanRadius = Some (Finite 6371),
             moons = Some [(), ()], discoveryDate = None \<rparr>"

text \<open>A planet whose numeric fields are present and zero.\<close>

definition still_body :: "unit raw_body" where
  "still_body = \<lparr> englishName = Some ''Vulcan'', isPlanet = True, bodyType = ''Planet'',
             semimajorAxis = Some (Finite 0), meanRadius = Some (Finite 0),
             moons = None, discoveryDate = Some ''1859'' \<rparr>"

text \<open>A planet without the field \<open>englishName\<close>.\<close>

definition nameless :: "unit raw_body" where
  "nameless = \<lparr> englishName = None, isPlanet = True, bodyType = ''Planet'',
             semimajorAxis = Some (Finite 778340821), meanRadius = Some (Finite 69911),
             moons = None, discoveryDate = None \<rparr>"

text \<open>
  A planet with given numeric fields and nothing else of interest, and a dwarf planet
  without a mean radius.
\<close>

definition planet :: "rat \<Rightarrow> rat \<Rightarrow> unit raw_body" where
  "planet a r = \<lparr> englishName = Some ''Planet'', isPlanet = True, bodyType = ''Planet'',
             semimajorAxis = Some (Finite a), meanRadius = Some (Finite r),
             moons = None, discoveryDate = None \<rparr>"

definition dwarf :: "unit raw_body" where
  "dwarf = \<lparr> englishName = Some ''Dwarf'', isPlanet = False, bodyType = ''Dwarf Planet'',
             semimajorAxis = None, meanRadius = None,
             moons = None, discoveryDate = None \<rparr>"

section \<open>Rounding to binary64\<close>

text \<open>
  The lemmas of this section say what \<open>round64\<close> computes: a finite result is a binary64
  value nearest to the exact one, a tie goes to the even significand, a binary64 value is
  left as it is, and the result is an infinity exactly from \<open>2^1024 - 2^970\<close> on.
\<close>

subsection \<open>Powers of two and the binary logarithm\<close>

lemma two_powi_pos [simp]: "0 < (2::rat) powi k"
  by simp

lemma two_powi_add: "(2::rat) powi (j + k) = 2 powi j * 2 powi k"
  by (simp add: power_int_add)

lemma two_powi_diff: "(2::rat) powi (j - k) = 2 powi j / 2 powi k"
  by (simp add: power_int_diff)

lemma two_powi_mono: "j \<le> k \<Longrightarrow> (2::rat) powi j \<le> 2 powi k"
  by (rule power_int_increasing) simp_all

lemma two_powi_bitlen:
  assumes "0 < p"
  shows "(2::rat) powi (bitlen p - 1) \<le> of_int p" and "of_int p < (2::rat) powi bitlen p"
proof -
  from assms have b: "1 \<le> bitlen p"
    by (simp add: bitlen_alt_def)
  from bitlen_bounds [OF assms]
  have lo: "2 ^ nat (bitlen p - 1) \<le> p" and hi: "p < 2 ^ nat (bitlen p)" by simp_all
  from lo have "(of_int (2 ^ nat (bitlen p - 1)) :: rat) \<le> of_int p"
    by (simp only: of_int_le_iff)
  with b show "(2::rat) powi (bitlen p - 1) \<le> of_int p"
    by (simp add: power_int_def)
  from hi have "(of_int p :: rat) < of_int (2 ^ nat (bitlen p))"
    by (simp only: of_int_less_iff)
  with b show "of_int p < (2::rat) powi bitlen p"
    by (simp add: power_int_def)
qed

text \<open>\<open>ilog2 a\<close> is the exponent of the power of two at or below \<open>a\<close>, and the only one.\<close>

lemma ilog2_bounds:
  assumes "0 < a"
  shows "2 powi ilog2 a \<le> a" and "a < 2 powi (ilog2 a + 1)"
proof -
  obtain p q where pq: "quotient_of a = (p, q)" by (cases "quotient_of a")
  then have q: "0 < q" and a: "a = of_int p / of_int q"
    by (simp_all add: quotient_of_denom_pos quotient_of_div)
  from assms a q have p: "0 < p"
    by (simp add: zero_less_divide_iff)
  define k where "k = bitlen p - bitlen q"
  have il: "ilog2 a = (if 2 powi k \<le> a then k else k - 1)"
    by (simp add: ilog2_def pq k_def Let_def)
  have "a < 2 powi bitlen p / 2 powi (bitlen q - 1)"
  proof -
    have "a \<le> of_int p / 2 powi (bitlen q - 1)"
      unfolding a using two_powi_bitlen(1) [OF q] p q
      by (intro divide_left_mono) (simp_all add: mult_pos_pos)
    also have "\<dots> < 2 powi bitlen p / 2 powi (bitlen q - 1)"
      using two_powi_bitlen(2) [OF p] by (simp add: divide_strict_right_mono)
    finally show ?thesis .
  qed
  also have "\<dots> = 2 powi (k + 1)"
    by (simp add: k_def two_powi_diff [symmetric]) (simp add: algebra_simps)
  finally have up: "a < 2 powi (k + 1)" .
  have "(2::rat) powi (bitlen p - 1) / 2 powi bitlen q \<le> of_int p / 2 powi bitlen q"
    using two_powi_bitlen(1) [OF p] by (simp add: divide_right_mono)
  also have "\<dots> \<le> a"
    unfolding a using two_powi_bitlen(2) [OF q] p q
    by (intro divide_left_mono) (simp_all add: mult_pos_pos)
  finally have "(2::rat) powi (bitlen p - 1) / 2 powi bitlen q \<le> a" .
  moreover have "(2::rat) powi (bitlen p - 1) / 2 powi bitlen q = (2::rat) powi (k - 1)"
    by (simp add: k_def two_powi_diff [symmetric]) (simp add: algebra_simps)
  ultimately have lo: "2 powi (k - 1) \<le> a" by simp
  from lo il show "2 powi ilog2 a \<le> a" by simp
  from up il show "a < 2 powi (ilog2 a + 1)"
    by (simp split: if_splits)
qed

lemma ilog2_unique:
  assumes "2 powi l \<le> a" "a < 2 powi (l + 1)"
  shows "ilog2 a = l"
proof -
  from assms(1) have a: "0 < a"
    using two_powi_pos [of l] by linarith
  note b = ilog2_bounds [OF a]
  have "\<not> ilog2 a < l"
  proof
    assume "ilog2 a < l"
    then have "ilog2 a + 1 \<le> l" by simp
    then have "(2::rat) powi (ilog2 a + 1) \<le> 2 powi l" by (rule two_powi_mono)
    with b(2) assms(1) show False by simp
  qed
  moreover have "\<not> l < ilog2 a"
  proof
    assume "l < ilog2 a"
    then have "l + 1 \<le> ilog2 a" by simp
    then have "(2::rat) powi (l + 1) \<le> 2 powi ilog2 a" by (rule two_powi_mono)
    with b(1) assms(2) show False by simp
  qed
  ultimately show ?thesis by simp
qed

subsection \<open>Rounding to an integer\<close>

lemma round_half_even_cases:
  obtains "round_half_even r = \<lfloor>r\<rfloor>" "r - of_int \<lfloor>r\<rfloor> \<le> 1 / 2"
  | "round_half_even r = \<lfloor>r\<rfloor> + 1" "1 / 2 \<le> r - of_int \<lfloor>r\<rfloor>"
  unfolding round_half_even_def Let_def
  by (cases "r - of_int \<lfloor>r\<rfloor> < 1 / 2"; cases "1 / 2 < r - of_int \<lfloor>r\<rfloor>"; cases "even \<lfloor>r\<rfloor>")
     simp_all

lemma round_half_even_nearest: "\<bar>of_int (round_half_even r) - r\<bar> \<le> \<bar>of_int k - r\<bar>"
proof -
  define fr :: rat where "fr = of_int \<lfloor>r\<rfloor>"
  define kr :: rat where "kr = of_int k"
  have f: "fr \<le> r" "r < fr + 1"
    unfolding fr_def by linarith+
  have "k \<le> \<lfloor>r\<rfloor> \<or> \<lfloor>r\<rfloor> + 1 \<le> k" by linarith
  then have k: "kr \<le> fr \<or> fr + 1 \<le> kr"
    unfolding fr_def kr_def by (metis of_int_1 of_int_add of_int_le_iff)
  show ?thesis
  proof (cases r rule: round_half_even_cases)
    case 1
    then have "of_int (round_half_even r) = fr" "r - fr \<le> 1 / 2"
      by (simp_all add: fr_def)
    with f k show ?thesis unfolding kr_def [symmetric] by (auto simp: abs_if)
  next
    case 2
    then have "of_int (round_half_even r) = fr + 1" "1 / 2 \<le> r - fr"
      by (simp_all add: fr_def)
    with f k show ?thesis unfolding kr_def [symmetric] by (auto simp: abs_if)
  qed
qed

lemma round_half_even_dist: "\<bar>of_int (round_half_even r) - r\<bar> \<le> 1 / 2"
proof -
  define fr :: rat where "fr = of_int \<lfloor>r\<rfloor>"
  define nr :: rat where "nr = of_int (round_half_even r)"
  have f: "fr \<le> r" "r < fr + 1"
    unfolding fr_def by linarith+
  have "\<bar>nr - r\<bar> \<le> \<bar>of_int \<lfloor>r\<rfloor> - r\<bar>" "\<bar>nr - r\<bar> \<le> \<bar>of_int (\<lfloor>r\<rfloor> + 1) - r\<bar>"
    unfolding nr_def by (rule round_half_even_nearest)+
  then have "\<bar>nr - r\<bar> \<le> \<bar>fr - r\<bar>" "\<bar>nr - r\<bar> \<le> \<bar>fr + 1 - r\<bar>"
    by (simp_all add: fr_def)
  with f have "\<bar>nr - r\<bar> \<le> 1 / 2" by linarith
  then show ?thesis by (simp add: nr_def)
qed

lemma round_half_even_of_int [simp]: "round_half_even (of_int k) = k"
  by (simp add: round_half_even_def)

lemma round_half_even_le:
  assumes "r \<le> of_int k"
  shows "round_half_even r \<le> k"
proof -
  define f where "f = \<lfloor>r\<rfloor>"
  have f: "of_int f \<le> r" "r < of_int f + 1"
    unfolding f_def by linarith+
  show ?thesis
  proof (cases "r = of_int k")
    case True
    then show ?thesis by simp
  next
    case False
    with assms have "r < of_int k" by simp
    with f(1) have "(of_int f :: rat) < of_int k" by linarith
    then have "f + 1 \<le> k" by simp
    then show ?thesis
      unfolding round_half_even_def f_def [symmetric] Let_def
      by (auto split: if_splits)
  qed
qed

lemma round_half_even_ge:
  assumes "of_int k \<le> r"
  shows "k \<le> round_half_even r"
proof -
  from assms have "k \<le> \<lfloor>r\<rfloor>" by (simp add: le_floor_iff)
  then show ?thesis
    unfolding round_half_even_def Let_def by (auto split: if_splits)
qed

lemma round_half_even_ge_half:
  assumes "of_int k - 1 / 2 \<le> r" "even k"
  shows "k \<le> round_half_even r"
proof (cases "of_int k \<le> r")
  case True
  then show ?thesis by (rule round_half_even_ge)
next
  case False
  with assms(1) have "of_int (k - 1) \<le> r" "r < of_int (k - 1) + 1" by simp_all
  then have f: "\<lfloor>r\<rfloor> = k - 1" by (simp add: floor_unique)
  from assms(2) have odd: "odd (k - 1)" by simp
  from assms(1) have "1 / 2 \<le> r - of_int (k - 1)" by simp
  with odd show ?thesis
    unfolding round_half_even_def f Let_def by (auto split: if_splits)
qed

lemma round_half_even_tie:
  assumes "\<bar>of_int (round_half_even r) - r\<bar> = 1 / 2"
  shows "even (round_half_even r)"
proof -
  define f where "f = \<lfloor>r\<rfloor>"
  have f: "of_int f \<le> r" "r < of_int f + 1"
    unfolding f_def by linarith+
  from assms f show ?thesis
    unfolding round_half_even_def f_def [symmetric] Let_def
    by (auto simp: abs_if split: if_splits)
qed

subsection \<open>The shape of a rounded number\<close>

lemma round64_pos:
  assumes "0 < x"
  shows "round64 x =
    (if 971 < unit_exponent x \<or> (unit_exponent x = 971 \<and> 2 ^ 53 \<le> significand x)
     then PosInfinity else Finite (of_int (significand x) * 2 powi unit_exponent x))"
proof -
  from assms have "(x = 0) = False" "(0 < x) = True" "\<bar>x\<bar> = x" by simp_all
  then show ?thesis
    unfolding round64_def Let_def unit_exponent_def significand_def
    by (simp only: if_False if_True)
qed

lemma round64_neg:
  assumes "x < 0"
  shows "round64 x =
    (if 971 < unit_exponent (- x) \<or> (unit_exponent (- x) = 971 \<and> 2 ^ 53 \<le> significand (- x))
     then NegInfinity else Finite (- (of_int (significand (- x)) * 2 powi unit_exponent (- x))))"
proof -
  from assms have "(x = 0) = False" "(0 < x) = False" "\<bar>x\<bar> = - x" by simp_all
  then show ?thesis
    unfolding round64_def Let_def unit_exponent_def significand_def
    by (simp only: if_False if_True)
qed

lemma round64_0 [simp]: "round64 0 = Finite 0"
  by (simp add: round64_def)

lemma round64_not_NaN: "round64 x \<noteq> NaN"
  by (simp add: round64_def Let_def)

lemma unit_exponent_ge: "- 1074 \<le> unit_exponent a"
  by (simp add: unit_exponent_def)

lemma scaled_less:
  assumes "0 < x"
  shows "x / 2 powi unit_exponent x < 2 ^ 53"
proof -
  have "ilog2 x + 1 \<le> unit_exponent x + 53"
    by (simp add: unit_exponent_def)
  then have "(2::rat) powi (ilog2 x + 1) \<le> 2 powi (unit_exponent x + 53)"
    by (rule two_powi_mono)
  with ilog2_bounds(2) [OF assms] have "x < 2 powi (unit_exponent x + 53)" by simp
  then have "x < 2 powi unit_exponent x * 2 ^ 53"
    by (simp add: two_powi_add)
  then show ?thesis
    by (simp add: pos_divide_less_eq mult.commute)
qed

lemma significand_bounds:
  assumes "0 < x"
  shows "0 \<le> significand x" and "significand x \<le> 2 ^ 53"
proof -
  have "(of_int 0 :: rat) \<le> x / 2 powi unit_exponent x"
    using assms by simp
  then show "0 \<le> significand x"
    unfolding significand_def by (rule round_half_even_ge)
  have "x / 2 powi unit_exponent x \<le> of_int (2 ^ 53)"
    using scaled_less [OF assms] by simp
  then show "significand x \<le> 2 ^ 53"
    unfolding significand_def by (rule round_half_even_le)
qed

subsection \<open>Binary64 values\<close>

lemma is_binary64I:
  assumes "\<bar>m\<bar> < 2 ^ 53" "- 1074 \<le> e" "e \<le> 971"
  shows "is_binary64 (of_int m * 2 powi e)"
  unfolding is_binary64_def using assms by blast

lemma is_binary64_minus: "is_binary64 (- x) \<longleftrightarrow> is_binary64 x"
proof -
  have "is_binary64 (- y)" if "is_binary64 y" for y
  proof -
    from that obtain m e where "\<bar>m\<bar> < 2 ^ 53" "- 1074 \<le> e" "e \<le> 971" "y = of_int m * 2 powi e"
      unfolding is_binary64_def by blast
    then have "\<bar>- m\<bar> < 2 ^ 53" "- y = of_int (- m) * 2 powi e" by simp_all
    with \<open>- 1074 \<le> e\<close> \<open>e \<le> 971\<close> show ?thesis
      unfolding is_binary64_def by blast
  qed
  from this [of x] this [of "- x"] show ?thesis by auto
qed

lemma is_binary64_0 [simp]: "is_binary64 0"
  using is_binary64I [of 0 0] by simp

lemma is_binary64_of_int: "\<bar>k\<bar> < 2 ^ 53 \<Longrightarrow> is_binary64 (of_int k)"
  using is_binary64I [of k 0] by simp

lemma is_binary64_less:
  assumes "is_binary64 a"
  shows "\<bar>a\<bar> < 2 ^ 1024"
proof -
  from assms obtain m e where m: "\<bar>m\<bar> < 2 ^ 53" and e: "e \<le> 971" and a: "a = of_int m * 2 powi e"
    unfolding is_binary64_def by blast
  from m have "\<bar>of_int m :: rat\<bar> < 2 ^ 53"
    by (metis of_int_abs of_int_less_numeral_power_cancel_iff)
  then have "\<bar>a\<bar> < 2 ^ 53 * 2 powi e"
    unfolding a by (simp add: abs_mult)
  also have "\<dots> \<le> 2 ^ 53 * 2 powi 971"
    using two_powi_mono [OF e] by simp
  also have "\<dots> = 2 ^ 1024" by simp
  finally show ?thesis .
qed

text \<open>A finite result of rounding is a binary64 value.\<close>

lemma round64_pos_is_binary64:
  assumes "0 < x" "round64 x = Finite y"
  shows "is_binary64 y"
proof -
  let ?e = "unit_exponent x" and ?m = "significand x"
  from assms have no: "\<not> (971 < ?e \<or> (?e = 971 \<and> 2 ^ 53 \<le> ?m))"
    and y: "y = of_int ?m * 2 powi ?e"
    by (auto simp: round64_pos split: if_splits)
  note m = significand_bounds [OF assms(1)]
  show ?thesis
  proof (cases "?m = 2 ^ 53")
    case True
    with no have e: "?e + 1 \<le> 971" by simp
    have "y = of_int (2 ^ 52) * 2 powi (?e + 1)"
      unfolding y True by (simp add: two_powi_add)
    moreover have "is_binary64 (of_int (2 ^ 52) * 2 powi (?e + 1))"
      using e unit_exponent_ge [of x] by (intro is_binary64I) simp_all
    ultimately show ?thesis by simp
  next
    case False
    with m have "\<bar>?m\<bar> < 2 ^ 53" by simp
    moreover from no have "?e \<le> 971" by simp
    ultimately show ?thesis
      unfolding y using unit_exponent_ge [of x] by (intro is_binary64I)
  qed
qed

lemma round64_is_binary64:
  assumes "round64 x = Finite y"
  shows "is_binary64 y"
proof -
  consider "x = 0" | "0 < x" | "x < 0" by linarith
  then show ?thesis
  proof cases
    case 1
    with assms show ?thesis by simp
  next
    case 2
    then show ?thesis using assms by (rule round64_pos_is_binary64)
  next
    case 3
    then have p: "0 < - x" by simp
    from 3 assms have "round64 (- x) = Finite (- y)"
      by (auto simp: round64_neg round64_pos [OF p] split: if_splits)
    with p have "is_binary64 (- y)" by (rule round64_pos_is_binary64)
    then show ?thesis by (simp add: is_binary64_minus)
  qed
qed

text \<open>Rounding leaves a binary64 value as it is.\<close>

lemma binary64_pos_shape:
  assumes "0 < x" "is_binary64 x"
  shows "\<exists>k. 0 < k \<and> k < 2 ^ 53 \<and> x = of_int k * 2 powi unit_exponent x \<and> unit_exponent x \<le> 971"
proof -
  let ?e = "unit_exponent x"
  from assms(2) obtain m e where m: "\<bar>m\<bar> < 2 ^ 53" and e: "- 1074 \<le> e" "e \<le> 971"
    and x: "x = of_int m * 2 powi e"
    unfolding is_binary64_def by blast
  from assms(1) x have "0 < (of_int m :: rat) * 2 powi e" by simp
  then have "0 < (of_int m :: rat)"
    using two_powi_pos [of e] by (simp add: zero_less_mult_iff not_less [symmetric] del: two_powi_pos zero_less_power_int)
  then have mpos: "0 < m" by simp
  with m have m53: "(of_int m :: rat) < 2 ^ 53"
    by (metis abs_of_pos of_int_less_numeral_power_cancel_iff)
  have x_less: "x < 2 powi (e + 53)"
    unfolding x two_powi_add using m53 by (simp add: mult.commute)
  have le: "?e \<le> e"
  proof (rule ccontr)
    assume "\<not> ?e \<le> e"
    then have lt: "e < ?e" by simp
    with e(1) have "?e = ilog2 x - 52"
      by (simp add: unit_exponent_def max_def split: if_splits)
    with lt have "e + 53 \<le> ilog2 x" by simp
    then have "(2::rat) powi (e + 53) \<le> 2 powi ilog2 x" by (rule two_powi_mono)
    with ilog2_bounds(1) [OF assms(1)] x_less show False by simp
  qed
  define k where "k = m * 2 ^ nat (e - ?e)"
  have "(2::rat) powi e = 2 powi (e - ?e) * 2 powi ?e"
    by (simp add: two_powi_add [symmetric])
  also have "(2::rat) powi (e - ?e) = 2 ^ nat (e - ?e)"
    using le by (simp add: power_int_def)
  finally have xk: "x = of_int k * 2 powi ?e"
    unfolding x k_def by simp
  have kpos: "0 < k"
    unfolding k_def using mpos by simp
  have "x / 2 powi ?e = of_int k"
    using xk by (simp add: field_simps)
  with scaled_less [OF assms(1)] have "of_int k < (2::rat) ^ 53"
    by (simp only:)
  then have k53: "k < 2 ^ 53"
    by (metis of_int_less_numeral_power_cancel_iff)
  have "ilog2 x < 1024"
  proof (rule ccontr)
    assume "\<not> ilog2 x < 1024"
    then have "e + 53 \<le> ilog2 x" using e(2) by simp
    then have "(2::rat) powi (e + 53) \<le> 2 powi ilog2 x" by (rule two_powi_mono)
    with ilog2_bounds(1) [OF assms(1)] x_less show False by simp
  qed
  then have "?e \<le> 971" by (simp add: unit_exponent_def)
  with kpos k53 xk show ?thesis by blast
qed

lemma round64_pos_exact:
  assumes "0 < x" "is_binary64 x"
  shows "round64 x = Finite x"
proof -
  let ?e = "unit_exponent x"
  from binary64_pos_shape [OF assms] obtain k
    where k: "0 < k" "k < 2 ^ 53" "x = of_int k * 2 powi ?e" and e: "?e \<le> 971" by blast
  have "x / 2 powi ?e = of_int k"
    using k(3) by (simp add: field_simps)
  then have s: "significand x = k"
    by (simp add: significand_def)
  with k e show ?thesis
    by (simp add: round64_pos [OF assms(1)])
qed

lemma round64_exact:
  assumes "is_binary64 x"
  shows "round64 x = Finite x"
proof -
  consider "x = 0" | "0 < x" | "x < 0" by linarith
  then show ?thesis
  proof cases
    case 1
    then show ?thesis by simp
  next
    case 2
    then show ?thesis using assms by (rule round64_pos_exact)
  next
    case 3
    then have p: "0 < - x" by simp
    from assms have "is_binary64 (- x)" by (simp add: is_binary64_minus)
    with p have "round64 (- x) = Finite (- x)" by (rule round64_pos_exact)
    with 3 show ?thesis
      by (auto simp: round64_neg round64_pos [OF p] split: if_splits)
  qed
qed

text \<open>The binary64 values are the rationals that rounding leaves as they are.\<close>

lemma is_binary64_iff [code]: "is_binary64 x \<longleftrightarrow> round64 x = Finite x"
  using round64_exact round64_is_binary64 by blast

subsection \<open>To nearest, ties to even\<close>

text \<open>A finite result of rounding is a binary64 value nearest to the exact one.\<close>

lemma round64_pos_nearest:
  assumes "0 < x" "round64 x = Finite y" "is_binary64 z"
  shows "\<bar>y - x\<bar> \<le> \<bar>z - x\<bar>"
proof -
  let ?e = "unit_exponent x" and ?m = "significand x"
  let ?u = "(2::rat) powi ?e"
  from assms have y: "y = of_int ?m * ?u"
    by (auto simp: round64_pos split: if_splits)
  have u: "0 < ?u" by simp
  have multiple: "\<bar>y - x\<bar> \<le> \<bar>of_int k * ?u - x\<bar>" for k
  proof -
    have "\<bar>of_int ?m - x / ?u\<bar> \<le> \<bar>of_int k - x / ?u\<bar>"
      unfolding significand_def by (rule round_half_even_nearest)
    then have "\<bar>of_int ?m - x / ?u\<bar> * ?u \<le> \<bar>of_int k - x / ?u\<bar> * ?u"
      using u by (simp only: mult_le_cancel_right_pos)
    moreover have "\<bar>c - x / ?u\<bar> * ?u = \<bar>c * ?u - x\<bar>" for c :: rat
    proof -
      have "\<bar>c - x / ?u\<bar> * ?u = \<bar>c - x / ?u\<bar> * \<bar>?u\<bar>" by simp
      also have "\<dots> = \<bar>(c - x / ?u) * ?u\<bar>" by (simp only: abs_mult)
      also have "(c - x / ?u) * ?u = c * ?u - x" by (simp add: field_simps)
      finally show ?thesis .
    qed
    ultimately show ?thesis by (simp add: y)
  qed
  from assms(3) obtain mz ez where mz: "\<bar>mz\<bar> < 2 ^ 53" and ez: "- 1074 \<le> ez"
    and z: "z = of_int mz * 2 powi ez"
    unfolding is_binary64_def by blast
  show ?thesis
  proof (cases "?e \<le> ez")
    case True
    have "(2::rat) powi ez = 2 powi (ez - ?e) * ?u"
      by (simp add: two_powi_add [symmetric])
    also have "(2::rat) powi (ez - ?e) = 2 ^ nat (ez - ?e)"
      using True by (simp add: power_int_def)
    finally have "z = of_int (mz * 2 ^ nat (ez - ?e)) * ?u"
      unfolding z by simp
    with multiple [of "mz * 2 ^ nat (ez - ?e)"] show ?thesis by simp
  next
    case False
    then have lt: "ez < ?e" by simp
    with ez have e: "?e = ilog2 x - 52"
      by (simp add: unit_exponent_def max_def split: if_splits)
    from mz have "\<bar>of_int mz :: rat\<bar> < 2 ^ 53"
      by (metis of_int_abs of_int_less_numeral_power_cancel_iff)
    then have "\<bar>z\<bar> < 2 ^ 53 * 2 powi ez"
      unfolding z by (simp add: abs_mult)
    also have "\<dots> = 2 powi (ez + 53)"
      by (simp add: two_powi_add)
    also have "\<dots> \<le> 2 powi ilog2 x"
      using lt e by (intro two_powi_mono) simp
    finally have zl: "\<bar>z\<bar> < 2 powi ilog2 x" .
    have "(2::rat) powi (52 + (ilog2 x - 52)) = 2 powi 52 * 2 powi (ilog2 x - 52)"
      by (rule two_powi_add)
    then have "(2::rat) powi ilog2 x = of_int (2 ^ 52) * ?u"
      unfolding e by simp
    with multiple [of "2 ^ 52"] have "\<bar>y - x\<bar> \<le> \<bar>2 powi ilog2 x - x\<bar>"
      by (simp only:)
    with ilog2_bounds(1) [OF assms(1)] zl show ?thesis
      by (simp add: abs_if split: if_splits)
  qed
qed

lemma round64_nearest:
  assumes "round64 x = Finite y" "is_binary64 z"
  shows "\<bar>y - x\<bar> \<le> \<bar>z - x\<bar>"
proof -
  consider "x = 0" | "0 < x" | "x < 0" by linarith
  then show ?thesis
  proof cases
    case 1
    with assms show ?thesis by simp
  next
    case 2
    then show ?thesis using assms by (rule round64_pos_nearest)
  next
    case 3
    then have p: "0 < - x" by simp
    from 3 assms(1) have "round64 (- x) = Finite (- y)"
      by (auto simp: round64_neg round64_pos [OF p] split: if_splits)
    moreover from assms(2) have "is_binary64 (- z)" by (simp add: is_binary64_minus)
    ultimately have "\<bar>- y - (- x)\<bar> \<le> \<bar>- z - (- x)\<bar>"
      using p by (intro round64_pos_nearest)
    then show ?thesis by (simp add: abs_minus_commute)
  qed
qed

text \<open>On a tie, where the result is half a unit away, the significand is even.\<close>

lemma round64_tie_even:
  assumes "0 < x" "round64 x = Finite y" "\<bar>y - x\<bar> = 2 powi unit_exponent x / 2"
  shows "even (significand x)"
proof -
  let ?u = "(2::rat) powi unit_exponent x"
  from assms(1,2) have y: "y = of_int (significand x) * ?u"
    by (auto simp: round64_pos split: if_splits)
  have "of_int (significand x) - x / ?u = (y - x) / ?u"
    unfolding y by (simp add: field_simps)
  then have "\<bar>of_int (significand x) - x / ?u\<bar> = \<bar>y - x\<bar> / ?u"
    by (simp add: abs_divide)
  also have "\<dots> = 1 / 2"
    unfolding assms(3) by simp
  finally show ?thesis
    unfolding significand_def by (rule round_half_even_tie)
qed

subsection \<open>Overflow\<close>

text \<open>
  Rounding overflows exactly from \<open>2^1024 - 2^970\<close> on, the midpoint between the largest
  binary64 value and \<open>2^1024\<close>.
\<close>

lemma round64_overflow:
  assumes "0 < x"
  shows "round64 x = PosInfinity \<longleftrightarrow> 2 ^ 1024 - 2 ^ 970 \<le> x"
proof -
  let ?e = "unit_exponent x" and ?m = "significand x"
  have inf: "round64 x = PosInfinity \<longleftrightarrow> 971 < ?e \<or> (?e = 971 \<and> 2 ^ 53 \<le> ?m)"
    by (simp add: round64_pos [OF assms])
  have p1024: "(2::rat) ^ 1024 = 2 ^ 53 * 2 powi 971" and p970: "(2::rat) ^ 970 = (1 / 2) * 2 powi 971"
    by simp_all
  show ?thesis
  proof
    assume "round64 x = PosInfinity"
    with inf consider "971 < ?e" | "?e = 971" "2 ^ 53 \<le> ?m" by blast
    then show "2 ^ 1024 - 2 ^ 970 \<le> x"
    proof cases
      case 1
      then have "1024 \<le> ilog2 x" by (simp add: unit_exponent_def)
      then have "(2::rat) powi 1024 \<le> 2 powi ilog2 x" by (rule two_powi_mono)
      with ilog2_bounds(1) [OF assms] have "(2::rat) ^ 1024 \<le> x" by simp
      moreover have "(0::rat) \<le> 2 ^ 970" by simp
      ultimately show ?thesis by linarith
    next
      case 2
      from 2(2) have "(2::rat) ^ 53 \<le> of_int ?m"
        by (metis numeral_power_le_of_int_cancel_iff)
      moreover have "\<bar>of_int ?m - x / 2 powi ?e\<bar> \<le> 1 / 2"
        unfolding significand_def by (rule round_half_even_dist)
      ultimately have "2 ^ 53 - 1 / 2 \<le> x / 2 powi 971"
        unfolding 2(1) by (simp add: abs_if split: if_splits)
      then have "(2 ^ 53 - 1 / 2) * 2 powi 971 \<le> x"
        by (simp only: pos_le_divide_eq two_powi_pos)
      then show ?thesis
        unfolding p1024 p970 by (simp only: left_diff_distrib)
    qed
  next
    assume big: "2 ^ 1024 - 2 ^ 970 \<le> x"
    have "(2::rat) ^ 1023 \<le> 2 ^ 1024 - 2 ^ 970" by simp
    with big have "(2::rat) powi 1023 \<le> x" by simp
    have "1023 \<le> ilog2 x"
    proof (rule ccontr)
      assume "\<not> 1023 \<le> ilog2 x"
      then have "ilog2 x + 1 \<le> 1023" by simp
      then have "(2::rat) powi (ilog2 x + 1) \<le> 2 powi 1023" by (rule two_powi_mono)
      with ilog2_bounds(2) [OF assms] \<open>2 powi 1023 \<le> x\<close> show False by linarith
    qed
    then have e: "971 \<le> ?e" by (simp add: unit_exponent_def)
    show "round64 x = PosInfinity"
    proof (cases "?e = 971")
      case False
      with e inf show ?thesis by simp
    next
      case True
      from big have "(2 ^ 53 - 1 / 2) * 2 powi 971 \<le> x"
        unfolding p1024 p970 by (simp only: left_diff_distrib)
      then have "of_int (2 ^ 53) - 1 / 2 \<le> x / 2 powi ?e"
        unfolding True by (simp add: pos_le_divide_eq)
      then have "2 ^ 53 \<le> ?m"
        unfolding significand_def by (rule round_half_even_ge_half) simp
      with True inf show ?thesis by simp
    qed
  qed
qed

lemma round64_neg_overflow:
  assumes "x < 0"
  shows "round64 x = NegInfinity \<longleftrightarrow> x \<le> - (2 ^ 1024 - 2 ^ 970)"
proof -
  from assms have p: "0 < - x" by simp
  have "round64 x = NegInfinity \<longleftrightarrow> round64 (- x) = PosInfinity"
    by (simp add: round64_neg [OF assms] round64_pos [OF p])
  also have "\<dots> \<longleftrightarrow> 2 ^ 1024 - 2 ^ 970 \<le> - x"
    by (rule round64_overflow [OF p])
  also have "\<dots> \<longleftrightarrow> x \<le> - (2 ^ 1024 - 2 ^ 970)"
    by linarith
  finally show ?thesis .
qed

lemma round64_finite:
  assumes "\<bar>x\<bar> < 2 ^ 1024 - 2 ^ 970"
  shows "\<exists>y. round64 x = Finite y"
proof -
  consider "x = 0" | "0 < x" | "x < 0" by linarith
  then have "round64 x \<noteq> PosInfinity \<and> round64 x \<noteq> NegInfinity"
  proof cases
    case 1
    then show ?thesis by simp
  next
    case 2
    with assms have "\<not> 2 ^ 1024 - 2 ^ 970 \<le> x" by simp
    with 2 show ?thesis
      by (simp add: round64_overflow) (simp add: round64_pos)
  next
    case 3
    with assms have "\<not> x \<le> - (2 ^ 1024 - 2 ^ 970)" by simp
    with 3 show ?thesis
      by (simp add: round64_neg_overflow) (simp add: round64_neg)
  qed
  with round64_not_NaN [of x] show ?thesis
    by (cases "round64 x") simp_all
qed

subsection \<open>The operations of the source\<close>

text \<open>The sum and the quotient of two numbers, when finite, are nearest binary64 values.\<close>

lemma fadd_nearest:
  assumes "fadd (Finite x) (Finite y) = Finite v"
  shows "is_binary64 v" and "is_binary64 z \<Longrightarrow> \<bar>v - (x + y)\<bar> \<le> \<bar>z - (x + y)\<bar>"
  using assms round64_is_binary64 round64_nearest by simp_all

lemma fdiv_nearest:
  assumes "fdiv (Finite x) (Finite y) = Finite v" "y \<noteq> 0"
  shows "is_binary64 v" and "is_binary64 z \<Longrightarrow> \<bar>v - x / y\<bar> \<le> \<bar>z - x / y\<bar>"
  using assms round64_is_binary64 round64_nearest by simp_all

text \<open>
  The quotient of a binary64 value by 149598000 is finite: a binary64 value, and one
  nearest to the exact quotient.
\<close>

lemma quotient_AU:
  assumes "is_binary64 a"
  shows "\<exists>q. fdiv (Finite a) (Finite 149598000) = Finite q \<and> is_binary64 q
           \<and> (\<forall>z. is_binary64 z \<longrightarrow> \<bar>q - a / 149598000\<bar> \<le> \<bar>z - a / 149598000\<bar>)"
proof -
  have "\<bar>a / 149598000\<bar> = \<bar>a\<bar> / 149598000" by simp
  also have "\<dots> \<le> \<bar>a\<bar> / 2" by (simp add: field_simps)
  also have "\<dots> < 2 ^ 1024 / 2" using is_binary64_less [OF assms] by simp
  also have "\<dots> \<le> 2 ^ 1024 - 2 ^ 970" by simp
  finally obtain q where q: "round64 (a / 149598000) = Finite q"
    using round64_finite by blast
  then have "fdiv (Finite a) (Finite 149598000) = Finite q" by simp
  with round64_is_binary64 [OF q] round64_nearest [OF q] show ?thesis by blast
qed

text \<open>Doubling a binary64 value is exact as long as the double is below \<open>2^1024\<close>.\<close>

lemma is_binary64_double:
  assumes "is_binary64 r" "\<bar>r * 2\<bar> < 2 ^ 1024"
  shows "is_binary64 (r * 2)"
proof -
  from assms(1) obtain m e where m: "\<bar>m\<bar> < 2 ^ 53" and e: "- 1074 \<le> e" "e \<le> 971"
    and r: "r = of_int m * 2 powi e"
    unfolding is_binary64_def by blast
  show ?thesis
  proof (cases "e = 971")
    case False
    have "r * 2 = of_int m * 2 powi (e + 1)"
      unfolding r by (simp add: two_powi_add)
    moreover have "is_binary64 (of_int m * 2 powi (e + 1))"
      using m e False by (intro is_binary64I) simp_all
    ultimately show ?thesis by simp
  next
    case True
    have "\<bar>r * 2\<bar> = of_int \<bar>m\<bar> * 2 ^ 972"
      unfolding r True by (simp add: abs_mult)
    with assms(2) have "(of_int \<bar>m\<bar> :: rat) * 2 ^ 972 < 2 ^ 52 * 2 ^ 972"
      by (simp only: power_add [symmetric]) simp
    then have "(of_int \<bar>m\<bar> :: rat) < 2 ^ 52"
      by (simp only: mult_less_cancel_right_pos zero_less_power zero_less_numeral)
    then have "\<bar>m\<bar> < 2 ^ 52"
      by (metis of_int_less_numeral_power_cancel_iff)
    then have "\<bar>m * 2\<bar> < 2 ^ 53" by (simp add: abs_mult)
    moreover have "r * 2 = of_int (m * 2) * 2 powi e"
      unfolding r by simp
    ultimately show ?thesis
      using e by (simp only: is_binary64I)
  qed
qed

lemma fmul_2_exact:
  assumes "is_binary64 r" "\<bar>r * 2\<bar> < 2 ^ 1024"
  shows "fmul (Finite r) (Finite 2) = Finite (r * 2)"
  using is_binary64_double [OF assms] by (simp add: round64_exact)

text \<open>Values of the example of the specification.\<close>

lemma round64_10000: "round64 10000 = Finite 10000"
  using round64_exact [OF is_binary64_of_int [of 10000]] by simp

lemma round64_5000: "round64 5000 = Finite 5000"
  using round64_exact [OF is_binary64_of_int [of 5000]] by simp

lemma toFixed2_5000: "toFixed2 (Finite 5000) = ''5000.00''"
  by code_simp

section \<open>The transformation: length, order, identifiers\<close>

lemma transformedData_survives:
  "transformedData bodies =
     map (\<lambda>(index, body). transform body index) (enumerate 0 (take 15 (filter survives bodies)))"
  unfolding transformedData_def survives_def ..

lemma length_transformedData:
  "length (transformedData bodies) = min 15 (length (filter survives bodies))"
  by (simp add: transformedData_survives min.commute)

lemma nth_transformedData:
  assumes "i < length (transformedData bodies)"
  shows "transformedData bodies ! i = transform (filter survives bodies ! i) i"
proof -
  from assms have i: "i < 15" "i < length (filter survives bodies)"
    by (simp_all add: length_transformedData)
  then have "i < length (take 15 (filter survives bodies))" by simp
  then show ?thesis
    using i by (simp add: transformedData_survives nth_enumerate_eq)
qed

lemma transformedData_eq_map:
  "transformedData bodies =
     map (\<lambda>i. transform (filter survives bodies ! i) i)
       [0 ..< min 15 (length (filter survives bodies))]"
  by (rule nth_equalityI) (simp_all add: length_transformedData nth_transformedData)

lemma o_id_transform: "o_id (transform body index) = index + 1"
  by (simp add: transform_def)

lemma map_o_id_transformedData:
  "map o_id (transformedData bodies) = map Suc [0 ..< length (transformedData bodies)]"
  by (rule nth_equalityI) (simp_all add: nth_transformedData o_id_transform)

lemma first_15_ids: "map Suc [0 ..< 15] = [1, 2, 3, 4, 5, 6, 7, 8, 9, 10, 11, 12, 13, 14, 15]"
  by code_simp

lemma survives_earth: "survives earth" by (simp add: survives_def earth_def)

lemma o_type_transform: "o_type (transform body index) \<in> {''planet'', ''dwarf planet''}"
  by (simp add: transform_def)

section \<open>What toFixed2 prints\<close>

lemma decimal_digits_small: "n < 10 \<Longrightarrow> decimal_digits n = [digit_char n]"
  by (simp add: decimal_digits.simps)

lemma decimal_digits_step:
  "10 \<le> n \<Longrightarrow> decimal_digits n = decimal_digits (n div 10) @ [digit_char (n mod 10)]"
  by (subst decimal_digits.simps) simp

lemma decimal_digits_two:
  assumes "10 \<le> n" "n < 100"
  shows "decimal_digits n = [digit_char (n div 10), digit_char (n mod 10)]"
proof -
  from assms have "n div 10 < 10" by simp
  with assms show ?thesis
    by (simp add: decimal_digits_step decimal_digits_small)
qed

lemma decimal_digits_many:
  assumes "100 \<le> n"
  shows "decimal_digits n =
           decimal_digits (n div 100) @ [digit_char (n div 10 mod 10), digit_char (n mod 10)]"
proof -
  from assms have "10 \<le> n" "10 \<le> n div 10" by simp_all
  moreover have "n div 10 div 10 = n div 100"
    by (simp add: zdiv_zmult2_eq [symmetric])
  ultimately show ?thesis
    by (simp add: decimal_digits_step [of n] decimal_digits_step [of "n div 10"])
qed

lemma decimal_digits_nonempty: "decimal_digits n \<noteq> []"
  by (subst decimal_digits.simps) simp

lemma digit_char_0: "CHR ''0'' = digit_char 0"
  by code_simp

text \<open>
  Below \<open>10^21\<close> the string is the decimal numeral of the hundredths that \<open>toFixed2\<close>
  rounds to.
\<close>

lemma positional_digits:
  assumes "0 \<le> n"
  shows "(let m = decimal_digits n;
              k = length m;
              m = (if k \<le> 2 then replicate (2 + 1 - k) (CHR ''0'') @ m else m);
              k = (if k \<le> 2 then 2 + 1 else k);
              a = take (k - 2) m;
              b = drop (k - 2) m
          in a @ ''.'' @ b)
         = decimal_digits (n div 100) @ ''.'' @
           [digit_char (n div 10 mod 10), digit_char (n mod 10)]"
proof -
  consider "n < 10" | "10 \<le> n" "n < 100" | "100 \<le> n" by linarith
  then show ?thesis
  proof cases
    case 1
    with assms have "n div 100 = 0" "n div 10 = 0" "n mod 10 = n" by simp_all
    with 1 show ?thesis
      by (simp add: decimal_digits_small Let_def digit_char_0 numeral_3_eq_3)
  next
    case 2
    then have "n div 100 = 0" "n div 10 mod 10 = n div 10" by simp_all
    with 2 show ?thesis
      by (simp add: decimal_digits_two decimal_digits_small Let_def digit_char_0)
  next
    case 3
    have "0 < length (decimal_digits (n div 100))"
      using decimal_digits_nonempty by simp
    with 3 show ?thesis
      by (simp add: decimal_digits_many Let_def)
  qed
qed

lemma toFixed2_decimal2:
  assumes "\<bar>x\<bar> < 10 ^ 21"
  shows "toFixed2 (Finite x) = decimal2 (x < 0) \<bar>toFixed2_hundredths x\<bar>"
proof -
  define n where "n = \<lfloor>(if x < 0 then - x else x) * 100 + 1 / 2\<rfloor>"
  have n0: "0 \<le> n"
    by (simp add: n_def)
  have abs_n: "\<bar>toFixed2_hundredths x\<bar> = n"
    using n0 by (simp add: toFixed2_hundredths_def n_def)
  from assms have small: "\<not> 10 ^ 21 \<le> (if x < 0 then - x else x)"
    by (simp add: abs_if split: if_splits)
  show ?thesis
    unfolding abs_n decimal2_def
    using positional_digits [OF n0] small
    by (simp add: toFixed2_def n_def Let_def)
qed

lemma toFixed2_hundredths_rounds: "rounds_half_away x (toFixed2_hundredths x)"
proof (cases "x < 0")
  case True
  define n where "n = \<lfloor>- x * 100 + 1 / 2\<rfloor>"
  have lo: "of_int n \<le> - x * 100 + 1 / 2" and hi: "- x * 100 + 1 / 2 < of_int n + 1"
    unfolding n_def by linarith+
  from True have h: "toFixed2_hundredths x = - n"
    by (simp add: toFixed2_hundredths_def n_def)
  from lo hi True show ?thesis
    unfolding h rounds_half_away_def by (auto simp: abs_if field_simps)
next
  case False
  define n where "n = \<lfloor>x * 100 + 1 / 2\<rfloor>"
  have lo: "of_int n \<le> x * 100 + 1 / 2" and hi: "x * 100 + 1 / 2 < of_int n + 1"
    unfolding n_def by linarith+
  from False have h: "toFixed2_hundredths x = n"
    by (simp add: toFixed2_hundredths_def n_def)
  from lo hi False show ?thesis
    unfolding h rounds_half_away_def by (auto simp: abs_if field_simps)
qed

text \<open>Rounding half away from zero determines the number of hundredths.\<close>

lemma rounds_half_away_unique:
  assumes "rounds_half_away x n" "rounds_half_away x m"
  shows "n = m"
proof (rule ccontr)
  assume "n \<noteq> m"
  then consider "n + 1 \<le> m" | "m + 1 \<le> n" by linarith
  then show False
  proof cases
    case 1
    then have "(of_int n :: rat) + 1 \<le> of_int m" by (metis of_int_1 of_int_add of_int_le_iff)
    with assms show False
      unfolding rounds_half_away_def by (auto simp: abs_if field_simps split: if_splits)
  next
    case 2
    then have "(of_int m :: rat) + 1 \<le> of_int n" by (metis of_int_1 of_int_add of_int_le_iff)
    with assms show False
      unfolding rounds_half_away_def by (auto simp: abs_if field_simps split: if_splits)
  qed
qed

text \<open>
  A quotient or mean that is finite and below \<open>10^21\<close> in magnitude is printed as its
  value rounded half away from zero to two fraction digits.
\<close>

lemma toFixed2_rounds:
  assumes "\<bar>q\<bar> < 10 ^ 21"
  shows "\<exists>n. rounds_half_away q n \<and> toFixed2 (Finite q) = decimal2 (q < 0) \<bar>n\<bar>"
  using toFixed2_hundredths_rounds toFixed2_decimal2 [OF assms] by blast

section \<open>The filter effect: when it throws, what it returns\<close>

lemma filter_js_throws:
  assumes "x \<in> set xs" "p x = Inl e"
  shows "filter_js p xs = Inl TypeError"
  using assms
proof (induction xs)
  case Nil
  then show ?case by simp
next
  case (Cons y ys)
  show ?case
  proof (cases "p y")
    case (Inl e')
    then show ?thesis by (cases e') simp
  next
    case (Inr keep)
    with Cons have "x \<in> set ys" by auto
    with Cons Inr show ?thesis by simp
  qed
qed

lemma filter_js_returns:
  assumes "\<forall>x \<in> set xs. p x = Inr (q x)"
  shows "filter_js p xs = Inr (filter q xs)"
  using assms by (induction xs) simp_all

text \<open>
  Lower-casing both strings and looking for the one in the other is the containment of the
  specification, case ignored.
\<close>

lemma includes_js_iff:
  "includes_js s t \<longleftrightarrow> (\<exists>i \<le> length s. take (length t) (drop i s) = t)"
proof
  assume "includes_js s t"
  then obtain i where "i \<in> set [0 ..< Suc (length s - length t)]"
      and "take (length t) (drop i s) = t"
    unfolding includes_js_def list_ex_iff by blast
  then have "i \<le> length s - length t" "take (length t) (drop i s) = t"
    by auto
  then show "\<exists>i \<le> length s. take (length t) (drop i s) = t"
    by (intro exI [of _ i]) simp
next
  assume "\<exists>i \<le> length s. take (length t) (drop i s) = t"
  then obtain i where i: "i \<le> length s" "take (length t) (drop i s) = t" by blast
  then have "length (take (length t) (drop i s)) = length t" by simp
  then have "length t \<le> length s - i" by simp
  with i have "length t \<le> length s" "i \<le> length s - length t" by simp_all
  moreover from this have "i \<in> set [0 ..< Suc (length s - length t)]" by auto
  ultimately show "includes_js s t"
    unfolding includes_js_def list_ex_iff using i by blast
qed

lemma map_eq_iff_list_all2:
  "map f xs = map f ys \<longleftrightarrow> list_all2 (\<lambda>a b. f a = f b) xs ys"
  by (induction xs arbitrary: ys) (auto simp: list_all2_Cons1 map_eq_Cons_conv)

lemma same_letter_eq: "same_letter = (\<lambda>a b. toLowerCase_char a = toLowerCase_char b)"
  by (simp add: fun_eq_iff same_letter_def)

lemma includes_js_toLowerCase:
  "includes_js (toLowerCase name) (toLowerCase search) \<longleftrightarrow> contains_ignoring_case name search"
proof -
  have "take (length search) (drop i (map toLowerCase_char name)) = map toLowerCase_char search
        \<longleftrightarrow> list_all2 same_letter (take (length search) (drop i name)) search" for i
  proof -
    have "take (length search) (drop i (map toLowerCase_char name))
            = map toLowerCase_char (take (length search) (drop i name))"
      by (simp add: take_map drop_map)
    then show ?thesis
      by (simp add: map_eq_iff_list_all2 same_letter_eq)
  qed
  then show ?thesis
    by (simp add: includes_js_iff contains_ignoring_case_def toLowerCase_def)
qed

lemma includes_js_empty: "includes_js s []"
  by (auto simp: includes_js_iff)

lemma matches_nameless: "o_name ob = None \<Longrightarrow> matches s c ob = Inl TypeError"
  by (simp add: matches_def)

lemma matches_named: "o_name ob \<noteq> None \<Longrightarrow> matches s c ob = Inr (visible s c ob)"
  by (auto simp: matches_def visible_def includes_js_toLowerCase)

text \<open>
  The filter throws as soon as one object has no name, and returns the objects that the
  rule makes visible, in the order of the dataset, when every object has one.
\<close>

lemma results_throws:
  "ob \<in> set ds \<Longrightarrow> o_name ob = None \<Longrightarrow> results ds s c = Inl TypeError"
  unfolding results_def by (rule filter_js_throws [where x = ob]) (simp_all add: matches_nameless)

lemma results_returns:
  "\<forall>ob \<in> set ds. o_name ob \<noteq> None \<Longrightarrow> results ds s c = Inr (filter (visible s c) ds)"
  unfolding results_def by (rule filter_js_returns) (simp add: matches_named)

lemma results_identity:
  assumes "\<forall>ob \<in> set ds. o_name ob \<noteq> None"
  shows "results ds [] ''all'' = Inr ds"
proof -
  have "\<forall>ob \<in> set ds. matches [] ''all'' ob = Inr True"
    using assms by (auto simp: matches_def toLowerCase_def includes_js_empty)
  then have "results ds [] ''all'' = Inr (filter (\<lambda>_. True) ds)"
    unfolding results_def by (rule filter_js_returns)
  then show ?thesis by simp
qed

lemma results_same_lower:
  assumes "toLowerCase s = toLowerCase s'"
  shows "results ds s c = results ds s' c"
proof -
  have "matches s c ob = matches s' c ob" for ob
    unfolding matches_def assms by (rule refl)
  then have "matches s c = matches s' c"
    by (rule ext)
  then show ?thesis by (simp add: results_def)
qed

lemma results_EARTH: "results ds ''EARTH'' c = results ds ''earth'' c"
  by (rule results_same_lower) code_simp

text \<open>A lower-cased string is not changed by lower-casing it again.\<close>

lemma of_char_toLowerCase_char:
  "of_char (toLowerCase_char c) = (if is_upper c then of_char c + 32 else (of_char c :: nat))"
  by (auto simp: toLowerCase_char_def is_upper_def Let_def)

lemma toLowerCase_char_idem: "toLowerCase_char (toLowerCase_char c) = toLowerCase_char c"
proof (cases "is_upper c")
  case True
  then have "\<not> is_upper (toLowerCase_char c)"
    unfolding is_upper_def [of "toLowerCase_char c"] of_char_toLowerCase_char Let_def
    by (auto simp: is_upper_def Let_def)
  then show ?thesis by (simp add: toLowerCase_char_def [of "toLowerCase_char c"])
next
  case False
  then show ?thesis by (simp add: toLowerCase_char_def)
qed

section \<open>The statistics as sums\<close>

lemma foldl_add: "foldl (\<lambda>sum obj. sum + f obj) a xs = a + sum_list (map f xs)"
  for a :: "'a :: monoid_add"
  by (induction xs arbitrary: a) (simp_all add: add.assoc)

lemma totalMoons_sum: "totalMoons ds = sum_list (map o_moons ds)"
  by (simp add: totalMoons_def foldl_add)

lemma averageDiameter_mean:
  "averageDiameter ds =
     (if ds = [] then JNum (Finite 0) else JStr (toFixed2 (mean_diameter ds)))"
proof -
  have "foldl (\<lambda>sum obj.
                 let diameter = (case o_diameter obj of JNum d \<Rightarrow> d | JStr _ \<Rightarrow> Finite 0)
                 in fadd sum diameter) (Finite 0) ds
        = binary64_sum (map numeric_diameter ds)"
    unfolding Let_def numeric_diameter_def [symmetric] binary64_sum_def
    by (simp add: foldl_map)
  then show ?thesis
    by (simp add: averageDiameter_def totalObjects_def mean_diameter_def)
qed

section \<open>The claims\<close>

text \<open>
  C1, as claimed: the average diameter is the sum of the numeric diameters divided by the
  number of entries and rounded to two fraction digits. Three datasets of the
  transformation show where this fails.
  With the diameters \<open>2^53\<close> and 1 the binary64 sum is \<open>2^53\<close>, and the code prints
  \<open>4503599627370496.00\<close>, while the mean \<open>(2^53 + 1) / 2\<close> has the hundredths
  \<open>4503599627370496.50\<close>.
  With four unknown diameters and the diameter 0.375 the binary64 quotient lies below
  the mean \<open>3 / 40\<close>, and the code prints \<open>0.07\<close>, while \<open>3 / 40\<close> rounds to 8 hundredths.
  With the one diameter \<open>2 * 10^21\<close> the code prints \<open>2e+21\<close>, which has no fraction
  digits.
\<close>

theorem averageDiameter_not_exact_mean:
  "is_binary64 (2 ^ 52) \<and> is_binary64 (1 / 2) \<and> is_binary64 (3 / 16) \<and> is_binary64 (10 ^ 21)
   \<and> map o_diameter (transformedData [planet 1 (2 ^ 52), planet 1 (1 / 2)])
       = [JNum (Finite (2 ^ 53)), JNum (Finite 1)]
   \<and> averageDiameter (transformedData [planet 1 (2 ^ 52), planet 1 (1 / 2)])
       = JStr ''4503599627370496.00''
   \<and> rounds_half_away ((2 ^ 53 + 1) / 2) 450359962737049650
   \<and> decimal2 False 450359962737049650 = ''4503599627370496.50''
   \<and> map o_diameter (transformedData [dwarf, dwarf, dwarf, dwarf, planet 1 (3 / 16)])
       = [JStr ''Unknown'', JStr ''Unknown'', JStr ''Unknown'', JStr ''Unknown'',
          JNum (Finite (3 / 8))]
   \<and> averageDiameter (transformedData [dwarf, dwarf, dwarf, dwarf, planet 1 (3 / 16)])
       = JStr ''0.07''
   \<and> rounds_half_away ((0 + 0 + 0 + 0 + 3 / 8) / 5) 8
   \<and> map o_diameter (transformedData [planet 1 (10 ^ 21)]) = [JNum (Finite (2 * 10 ^ 21))]
   \<and> averageDiameter (transformedData [planet 1 (10 ^ 21)]) = JStr ''2e+21''"
proof (intro conjI)
  show "is_binary64 (2 ^ 52)"
    using is_binary64_of_int [of "2 ^ 52"] by simp
  show "is_binary64 (1 / 2)"
    using is_binary64I [of 1 "- 1"] by simp
  show "is_binary64 (3 / 16)"
    using is_binary64I [of 3 "- 4"] by simp
  show "is_binary64 (10 ^ 21)"
    using is_binary64_of_int [of "476837158203125"] is_binary64I [of 476837158203125 21] by simp
  show "map o_diameter (transformedData [planet 1 (2 ^ 52), planet 1 (1 / 2)])
       = [JNum (Finite (2 ^ 53)), JNum (Finite 1)]"
    by code_simp
  show "averageDiameter (transformedData [planet 1 (2 ^ 52), planet 1 (1 / 2)])
       = JStr ''4503599627370496.00''"
    by code_simp
  show "rounds_half_away ((2 ^ 53 + 1) / 2) 450359962737049650"
    by (simp add: rounds_half_away_def)
  show "decimal2 False 450359962737049650 = ''4503599627370496.50''"
    by code_simp
  show "map o_diameter (transformedData [dwarf, dwarf, dwarf, dwarf, planet 1 (3 / 16)])
       = [JStr ''Unknown'', JStr ''Unknown'', JStr ''Unknown'', JStr ''Unknown'',
          JNum (Finite (3 / 8))]"
    by code_simp
  show "averageDiameter (transformedData [dwarf, dwarf, dwarf, dwarf, planet 1 (3 / 16)])
       = JStr ''0.07''"
    by code_simp
  show "rounds_half_away ((0 + 0 + 0 + 0 + 3 / 8) / 5) 8"
    by (simp add: rounds_half_away_def)
  show "map o_diameter (transformedData [planet 1 (10 ^ 21)]) = [JNum (Finite (2 * 10 ^ 21))]"
    by code_simp
  show "averageDiameter (transformedData [planet 1 (10 ^ 21)]) = JStr ''2e+21''"
    by code_simp
qed

text \<open>
  C1, amended: the average diameter is the number 0 for the empty dataset; otherwise it
  is \<open>toFixed(2)\<close> of the mean diameter, which is the binary64 sum of the numeric
  diameters, added from 0 in the order of the dataset with every \<open>'Unknown'\<close> counting as
  zero, divided in binary64 by the number of all entries. When the mean diameter is
  finite and below \<open>10^21\<close> in magnitude, the average diameter is its value rounded half
  away from zero and printed with exactly two fraction digits. Two objects with the
  diameters \<open>'Unknown'\<close> and 10000 give \<open>5000.00\<close>.
\<close>

theorem averageDiameter_rounded_mean:
  "averageDiameter ds =
     (if ds = [] then JNum (Finite 0) else JStr (toFixed2 (mean_diameter ds)))
   \<and> (\<forall>q. ds \<noteq> [] \<and> mean_diameter ds = Finite q \<and> \<bar>q\<bar> < 10 ^ 21 \<longrightarrow>
        (\<exists>n. rounds_half_away q n \<and> averageDiameter ds = JStr (decimal2 (q < 0) \<bar>n\<bar>)))
   \<and> averageDiameter
         [ob1\<lparr>o_diameter := JStr ''Unknown''\<rparr>, ob2\<lparr>o_diameter := JNum (Finite 10000)\<rparr>]
        = JStr ''5000.00''"
proof (intro conjI allI impI)
  show mean: "averageDiameter ds =
      (if ds = [] then JNum (Finite 0) else JStr (toFixed2 (mean_diameter ds)))" for ds
    by (rule averageDiameter_mean)
  show "\<exists>n. rounds_half_away q n \<and> averageDiameter ds = JStr (decimal2 (q < 0) \<bar>n\<bar>)"
    if "ds \<noteq> [] \<and> mean_diameter ds = Finite q \<and> \<bar>q\<bar> < 10 ^ 21" for q
    using that toFixed2_rounds [of q] by (auto simp: mean)
  have "mean_diameter
          [ob1\<lparr>o_diameter := JStr ''Unknown''\<rparr>, ob2\<lparr>o_diameter := JNum (Finite 10000)\<rparr>]
        = Finite 5000"
    by (simp add: mean_diameter_def binary64_sum_def numeric_diameter_def
        round64_10000 round64_5000)
  then show "averageDiameter
         [ob1\<lparr>o_diameter := JStr ''Unknown''\<rparr>, ob2\<lparr>o_diameter := JNum (Finite 10000)\<rparr>]
        = JStr ''5000.00''"
    by (simp add: mean toFixed2_5000)
qed

theorem averageDiameter_rounded_mean_witness:
  "transformedData [still_body, earth] \<noteq> []
   \<and> mean_diameter (transformedData [still_body, earth]) = Finite 6371
   \<and> \<bar>6371 :: rat\<bar> < 10 ^ 21
   \<and> averageDiameter (transformedData [still_body, earth]) = JStr ''6371.00''"
proof -
  have ne: "transformedData [still_body, earth] \<noteq> []"
    by (simp add: transformedData_def still_body_def earth_def)
  have m: "mean_diameter (transformedData [still_body, earth]) = Finite 6371"
    by code_simp
  have b: "\<bar>6371 :: rat\<bar> < 10 ^ 21"
    by simp
  from averageDiameter_rounded_mean [of "transformedData [still_body, earth]"] ne m b
  obtain n where n: "rounds_half_away 6371 n"
    and a: "averageDiameter (transformedData [still_body, earth])
              = JStr (decimal2 (6371 < (0 :: rat)) \<bar>n\<bar>)"
    by blast
  have "rounds_half_away 6371 637100"
    by (simp add: rounds_half_away_def)
  with n have "n = 637100" by (rule rounds_half_away_unique)
  moreover have "decimal2 False 637100 = ''6371.00''" by code_simp
  ultimately have "averageDiameter (transformedData [still_body, earth]) = JStr ''6371.00''"
    using a by simp
  with ne m b show ?thesis by blast
qed

text \<open>
  C2. The three statistics of a render (number of objects, average diameter, total of
  moons) are computed from the dataset alone: rendering the same dataset under two
  search strings and two category selections gives the same three values.
\<close>

theorem statistics_ignore_search_and_type:
  "statistics (st\<lparr>searchTerm := s1, objectType := c1\<rparr>)
     = statistics (st\<lparr>searchTerm := s2, objectType := c2\<rparr>)
   \<and> statistics st =
       (length (celestialObjects st),
        averageDiameter (celestialObjects st),
        sum_list (map o_moons (celestialObjects st)))"
  by (simp add: statistics_def totalObjects_def totalMoons_sum)

text \<open>
  C3. The transformation keeps the records that survive (planet flag true, or body type
  exactly \<open>Dwarf Planet\<close>), the first 15 of them at most, in the order of the input, and
  the identifier of an output record is its position counted from 1. Twenty surviving
  inputs give 15 outputs, numbered 1 to 15, made from the first 15 inputs in order.
\<close>

theorem transformedData_keeps_first_15:
  "transformedData bodies =
     map (\<lambda>i. transform (filter survives bodies ! i) i)
       [0 ..< min 15 (length (filter survives bodies))]
   \<and> map o_id (transformedData bodies) = map Suc [0 ..< length (transformedData bodies)]
   \<and> (length bodies = 20 \<and> (\<forall>body \<in> set bodies. survives body) \<longrightarrow>
        length (transformedData bodies) = 15
        \<and> map o_id (transformedData bodies) = [1, 2, 3, 4, 5, 6, 7, 8, 9, 10, 11, 12, 13, 14, 15]
        \<and> transformedData bodies = map (\<lambda>i. transform (bodies ! i) i) [0 ..< 15])"
proof (intro conjI impI)
  show "transformedData bodies =
     map (\<lambda>i. transform (filter survives bodies ! i) i)
       [0 ..< min 15 (length (filter survives bodies))]"
    by (rule transformedData_eq_map)
  show ids: "map o_id (transformedData bodies) = map Suc [0 ..< length (transformedData bodies)]"
    by (rule map_o_id_transformedData)
  assume a: "length bodies = 20 \<and> (\<forall>body \<in> set bodies. survives body)"
  then have f: "filter survives bodies = bodies" by simp
  with a show len: "length (transformedData bodies) = 15"
    by (simp add: length_transformedData)
  from ids len show "map o_id (transformedData bodies) = [1, 2, 3, 4, 5, 6, 7, 8, 9, 10, 11, 12, 13, 14, 15]"
    by (simp only: first_15_ids)
  from f a show "transformedData bodies = map (\<lambda>i. transform (bodies ! i) i) [0 ..< 15]"
    by (simp add: transformedData_eq_map)
qed

theorem transformedData_keeps_first_15_witness:
  "length (replicate 20 earth) = 20
   \<and> length (transformedData (replicate 20 earth)) = 15
   \<and> map o_id (transformedData (replicate 20 earth)) = [1, 2, 3, 4, 5, 6, 7, 8, 9, 10, 11, 12, 13, 14, 15]"
proof -
  have h: "length (replicate 20 earth) = 20 \<and> (\<forall>body \<in> set (replicate 20 earth). survives body)"
    by (simp add: survives_earth)
  with transformedData_keeps_first_15 [of "replicate 20 earth"] show ?thesis
    by blast
qed

text \<open>
  C4. The claim: for every dataset of the transformation, an object is shown exactly when
  its name contains the search string, case ignored, and the category selection is
  \<open>all\<close> or the object's type; the empty search string matches every object. The dataset
  made from a planet without \<open>englishName\<close> followed by the Earth is a dataset of the
  transformation. With the empty search string and the selection \<open>all\<close>, the state in
  which the filter first runs after the load, the Earth's name contains the search string
  and its type passes, yet the filter throws and shows nothing.
  (Lemma \<open>results_returns\<close> is the rule on the datasets in which every object has a name.)
\<close>

theorem results_throws_beside_earth:
  "o_name (transformedData [nameless, earth] ! 1) = Some ''Earth''
   \<and> includes_js (toLowerCase ''Earth'') (toLowerCase [])
   \<and> results (transformedData [nameless, earth]) [] ''all'' = Inl TypeError"
proof (intro conjI)
  show "o_name (transformedData [nameless, earth] ! 1) = Some ''Earth''"
    by (simp add: transformedData_def transform_def nameless_def earth_def enumerate_eq_zip upt_rec)
  show "includes_js (toLowerCase ''Earth'') (toLowerCase [])"
    by (simp add: toLowerCase_def includes_js_empty)
  have "transformedData [nameless, earth] ! 0 \<in> set (transformedData [nameless, earth])"
    by (simp add: transformedData_def nameless_def earth_def)
  moreover have "o_name (transformedData [nameless, earth] ! 0) = None"
    by (simp add: transformedData_def transform_def nameless_def earth_def enumerate_eq_zip upt_rec)
  ultimately show "results (transformedData [nameless, earth]) [] ''all'' = Inl TypeError"
    by (rule results_throws)
qed

text \<open>
  C5. Every record of the transformation has the type \<open>planet\<close> or \<open>dwarf planet\<close>, and
  the transformation returns at most 15 records.
\<close>

theorem transformedData_category_bound:
  "(\<forall>ob \<in> set (transformedData bodies). o_type ob \<in> {''planet'', ''dwarf planet''})
   \<and> length (transformedData bodies) \<le> 15"
proof
  show "\<forall>ob \<in> set (transformedData bodies). o_type ob \<in> {''planet'', ''dwarf planet''}"
  proof
    fix ob assume "ob \<in> set (transformedData bodies)"
    then obtain i where "i < length (transformedData bodies)" "ob = transformedData bodies ! i"
      by (auto simp: in_set_conv_nth)
    then show "o_type ob \<in> {''planet'', ''dwarf planet''}"
      using o_type_transform by (simp only: nth_transformedData)
  qed
  show "length (transformedData bodies) \<le> 15"
    by (simp add: length_transformedData)
qed

theorem transformedData_category_bound_witness:
  "o_type (transformedData [earth] ! 0) \<in> {''planet'', ''dwarf planet''}
   \<and> length (transformedData [earth]) \<le> 15"
proof -
  have "transformedData [earth] ! 0 \<in> set (transformedData [earth])"
    by (simp add: length_transformedData survives_earth)
  with transformedData_category_bound [of "[earth]"] show ?thesis
    by blast
qed

text \<open>
  C6, as claimed: a semi-major axis that is present gives the quotient by 149598000
  rounded half away from zero to two fraction digits, a mean radius that is present gives
  its double. Three planets show where this fails.
  \<open>still_body\<close> has both fields present and equal to 0, and its record carries
  \<open>'Unknown'\<close> twice.
  The semi-major axis 150345990 has the quotient \<open>201 / 200\<close>, which rounds half away
  from zero to 101 hundredths; the binary64 quotient lies below it, and the code prints
  \<open>1.00\<close>.
  The semi-major axis \<open>1e30\<close>, the binary64 value 1000000000000000019884624838656, is
  printed in exponent notation.
\<close>

theorem distance_not_rounded_quotient:
  "semimajorAxis still_body = Some (Finite 0)
   \<and> o_distanceFromSun (transformedData [still_body] ! 0) = JStr ''Unknown''
   \<and> meanRadius still_body = Some (Finite 0)
   \<and> o_diameter (transformedData [still_body] ! 0) = JStr ''Unknown''
   \<and> is_binary64 150345990
   \<and> (150345990 :: rat) / 149598000 = 201 / 200
   \<and> rounds_half_away (150345990 / 149598000) 101
   \<and> o_distanceFromSun (transformedData [planet 150345990 1] ! 0) = JStr ''1.00''
   \<and> is_binary64 1000000000000000019884624838656
   \<and> o_distanceFromSun (transformedData [planet 1000000000000000019884624838656 1] ! 0)
       = JStr ''6.684581344670383e+21''"
proof (intro conjI)
  show "is_binary64 150345990"
    using is_binary64_of_int [of 150345990] by simp
  show "is_binary64 1000000000000000019884624838656"
    using is_binary64I [of 7105427357601002 47] by simp
  show "semimajorAxis still_body = Some (Finite 0)" "meanRadius still_body = Some (Finite 0)"
    by (simp_all add: still_body_def)
  show "o_distanceFromSun (transformedData [still_body] ! 0) = JStr ''Unknown''"
    "o_diameter (transformedData [still_body] ! 0) = JStr ''Unknown''"
    by (simp_all add: still_body_def transformedData_def transform_def)
  show "(150345990 :: rat) / 149598000 = 201 / 200"
    by simp
  show "rounds_half_away (150345990 / 149598000) 101"
    by (simp add: rounds_half_away_def)
  show "o_distanceFromSun (transformedData [planet 150345990 1] ! 0) = JStr ''1.00''"
    by code_simp
  show "o_distanceFromSun (transformedData [planet 1000000000000000019884624838656 1] ! 0)
       = JStr ''6.684581344670383e+21''"
    by code_simp
qed

text \<open>
  C6, amended: for every surviving record, a semi-major axis that is present, finite and
  not zero gives \<open>toFixed(2)\<close> of its binary64 quotient by 149598000; that quotient is
  finite, a binary64 value nearest to the exact quotient, and when it is below \<open>10^21\<close>
  in magnitude the distance is its value rounded half away from zero and printed with
  exactly two fraction digits. A semi-major axis that is absent or zero gives
  \<open>'Unknown'\<close>. A mean radius that is present, finite and not zero gives its binary64
  product with 2, which is its double, unrounded, as long as the double is below
  \<open>2^1024\<close>; one that is absent or zero gives \<open>'Unknown'\<close>.
\<close>

theorem distance_and_diameter_of_record:
  assumes "i < length (transformedData bodies)"
  shows "(\<forall>a. semimajorAxis (filter survives bodies ! i) = Some (Finite a) \<and> a \<noteq> 0
               \<and> is_binary64 a \<longrightarrow>
            (\<exists>q. fdiv (Finite a) (Finite 149598000) = Finite q
               \<and> o_distanceFromSun (transformedData bodies ! i) = JStr (toFixed2 (Finite q))
               \<and> is_binary64 q
               \<and> (\<forall>z. is_binary64 z \<longrightarrow> \<bar>q - a / 149598000\<bar> \<le> \<bar>z - a / 149598000\<bar>)
               \<and> (\<bar>q\<bar> < 10 ^ 21 \<longrightarrow>
                    (\<exists>n. rounds_half_away q n
                       \<and> o_distanceFromSun (transformedData bodies ! i)
                           = JStr (decimal2 (q < 0) \<bar>n\<bar>)))))
       \<and> (semimajorAxis (filter survives bodies ! i) = None
            \<or> semimajorAxis (filter survives bodies ! i) = Some (Finite 0) \<longrightarrow>
            o_distanceFromSun (transformedData bodies ! i) = JStr ''Unknown'')
       \<and> (\<forall>r. meanRadius (filter survives bodies ! i) = Some (Finite r) \<and> r \<noteq> 0 \<longrightarrow>
            o_diameter (transformedData bodies ! i) = JNum (fmul (Finite r) (Finite 2))
            \<and> (is_binary64 r \<and> \<bar>r * 2\<bar> < 2 ^ 1024 \<longrightarrow>
                 o_diameter (transformedData bodies ! i) = JNum (Finite (r * 2))))
       \<and> (meanRadius (filter survives bodies ! i) = None
            \<or> meanRadius (filter survives bodies ! i) = Some (Finite 0) \<longrightarrow>
            o_diameter (transformedData bodies ! i) = JStr ''Unknown'')"
proof (intro conjI allI impI)
  note nth = nth_transformedData [OF assms]
  fix a
  assume a: "semimajorAxis (filter survives bodies ! i) = Some (Finite a) \<and> a \<noteq> 0
               \<and> is_binary64 a"
  then have d: "o_distanceFromSun (transformedData bodies ! i)
                  = JStr (toFixed2 (fdiv (Finite a) (Finite 149598000)))"
    by (simp add: nth transform_def)
  from a quotient_AU [of a] obtain q where q: "fdiv (Finite a) (Finite 149598000) = Finite q"
    and b: "is_binary64 q"
    and n: "\<forall>z. is_binary64 z \<longrightarrow> \<bar>q - a / 149598000\<bar> \<le> \<bar>z - a / 149598000\<bar>"
    by blast
  have dq: "o_distanceFromSun (transformedData bodies ! i) = JStr (toFixed2 (Finite q))"
    unfolding d q ..
  have "\<bar>q\<bar> < 10 ^ 21 \<longrightarrow>
          (\<exists>n. rounds_half_away q n
             \<and> o_distanceFromSun (transformedData bodies ! i) = JStr (decimal2 (q < 0) \<bar>n\<bar>))"
    unfolding dq using toFixed2_rounds [of q] by blast
  with q b n dq
  show "\<exists>q. fdiv (Finite a) (Finite 149598000) = Finite q
          \<and> o_distanceFromSun (transformedData bodies ! i) = JStr (toFixed2 (Finite q))
          \<and> is_binary64 q
          \<and> (\<forall>z. is_binary64 z \<longrightarrow> \<bar>q - a / 149598000\<bar> \<le> \<bar>z - a / 149598000\<bar>)
          \<and> (\<bar>q\<bar> < 10 ^ 21 \<longrightarrow>
               (\<exists>n. rounds_half_away q n
                  \<and> o_distanceFromSun (transformedData bodies ! i)
                      = JStr (decimal2 (q < 0) \<bar>n\<bar>)))"
    by blast
next
  note nth = nth_transformedData [OF assms]
  assume "semimajorAxis (filter survives bodies ! i) = None
            \<or> semimajorAxis (filter survives bodies ! i) = Some (Finite 0)"
  then show "o_distanceFromSun (transformedData bodies ! i) = JStr ''Unknown''"
    by (auto simp: nth transform_def)
next
  note nth = nth_transformedData [OF assms]
  fix r
  assume r: "meanRadius (filter survives bodies ! i) = Some (Finite r) \<and> r \<noteq> 0"
  then show m: "o_diameter (transformedData bodies ! i) = JNum (fmul (Finite r) (Finite 2))"
    by (simp add: nth transform_def)
  assume "is_binary64 r \<and> \<bar>r * 2\<bar> < 2 ^ 1024"
  then show "o_diameter (transformedData bodies ! i) = JNum (Finite (r * 2))"
    unfolding m by (simp only: fmul_2_exact)
next
  note nth = nth_transformedData [OF assms]
  assume "meanRadius (filter survives bodies ! i) = None
            \<or> meanRadius (filter survives bodies ! i) = Some (Finite 0)"
  then show "o_diameter (transformedData bodies ! i) = JStr ''Unknown''"
    by (auto simp: nth transform_def)
qed

theorem distance_and_diameter_of_record_witness:
  "0 < length (transformedData [earth])
   \<and> semimajorAxis earth = Some (Finite 149598023)
   \<and> is_binary64 149598023
   \<and> fdiv (Finite 149598023) (Finite 149598000) = Finite (4503600319778091 / 4503599627370496)
   \<and> o_distanceFromSun (transformedData [earth] ! 0) = JStr ''1.00''
   \<and> meanRadius earth = Some (Finite 6371)
   \<and> is_binary64 6371
   \<and> o_diameter (transformedData [earth] ! 0) = JNum (Finite 12742)"
proof -
  have len: "0 < length (transformedData [earth])"
    by (simp add: length_transformedData survives_earth)
  have e: "filter survives [earth] ! 0 = earth"
    by (simp add: survives_earth)
  have ba: "is_binary64 149598023" and br: "is_binary64 6371"
    using is_binary64_of_int [of 149598023] is_binary64_of_int [of 6371] by simp_all
  have a: "semimajorAxis earth = Some (Finite 149598023) \<and> (149598023 :: rat) \<noteq> 0
             \<and> is_binary64 149598023"
    and r: "meanRadius earth = Some (Finite 6371) \<and> (6371 :: rat) \<noteq> 0"
    using ba by (simp_all add: earth_def)
  have quot: "fdiv (Finite 149598023) (Finite 149598000)
                = Finite (4503600319778091 / 4503599627370496)"
    by code_simp
  note inst = distance_and_diameter_of_record [OF len, unfolded e]
  from inst a obtain q where q: "fdiv (Finite 149598023) (Finite 149598000) = Finite q"
    and rnd: "\<bar>q\<bar> < 10 ^ 21 \<longrightarrow>
          (\<exists>n. rounds_half_away q n
             \<and> o_distanceFromSun (transformedData [earth] ! 0) = JStr (decimal2 (q < 0) \<bar>n\<bar>))"
    by blast
  from q quot have qv: "q = 4503600319778091 / 4503599627370496" by simp
  then have "\<bar>q\<bar> < 10 ^ 21" "\<not> q < 0" by simp_all
  with rnd obtain n where n: "rounds_half_away q n"
    and d: "o_distanceFromSun (transformedData [earth] ! 0) = JStr (decimal2 False \<bar>n\<bar>)"
    by auto
  have "rounds_half_away q 100"
    unfolding qv by (simp add: rounds_half_away_def)
  with n have "n = 100" by (rule rounds_half_away_unique)
  moreover have "decimal2 False 100 = ''1.00''" by code_simp
  ultimately have dist: "o_distanceFromSun (transformedData [earth] ! 0) = JStr ''1.00''"
    using d by simp
  from br have "is_binary64 6371 \<and> \<bar>6371 * 2 :: rat\<bar> < 2 ^ 1024" by simp
  with inst r have "o_diameter (transformedData [earth] ! 0) = JNum (Finite (6371 * 2))"
    by blast
  then have diam: "o_diameter (transformedData [earth] ! 0) = JNum (Finite 12742)" by simp
  from len a r ba br quot dist diam show ?thesis by blast
qed

text \<open>
  C7. The claim: the transformation and the filter raise no error on any input, and a
  missing field of a record becomes a sentinel. On the list holding one planet without
  \<open>englishName\<close> the transformation returns a record whose name is \<open>undefined\<close>, no
  sentinel, and the filter throws on that dataset.
\<close>

theorem missing_name_no_sentinel_filter_throws:
  "englishName nameless = None
   \<and> map o_name (transformedData [nameless]) = [None]
   \<and> results (transformedData [nameless]) [] ''all'' = Inl TypeError"
  by (simp add: nameless_def transformedData_def transform_def results_def matches_def)

text \<open>
  C8. The claim: on every dataset of the transformation, the empty search string and the
  selection \<open>all\<close> show the dataset itself. On the dataset made from the Earth and a
  planet without \<open>englishName\<close> the filter throws instead.
  (Lemma \<open>results_identity\<close> is the claim on the datasets in which every object has a name.)
\<close>

theorem identity_filter_throws_on_nameless:
  "results (transformedData [earth, nameless]) [] ''all'' = Inl TypeError
   \<and> results (transformedData [earth, nameless]) [] ''all'' \<noteq> Inr (transformedData [earth, nameless])"
proof -
  have "transformedData [earth, nameless] ! 1 \<in> set (transformedData [earth, nameless])"
    by (simp add: transformedData_def nameless_def earth_def)
  moreover have "o_name (transformedData [earth, nameless] ! 1) = None"
    by (simp add: transformedData_def transform_def nameless_def earth_def enumerate_eq_zip upt_rec)
  ultimately have "results (transformedData [earth, nameless]) [] ''all'' = Inl TypeError"
    by (rule results_throws)
  then show ?thesis by simp
qed

text \<open>
  C9. A record that survives and has no \<open>englishName\<close> becomes an object whose name is
  \<open>undefined\<close>, and the filter throws a TypeError on every dataset that holds this
  object, whatever the search string and the selection.
\<close>

theorem nameless_record_breaks_filter:
  assumes "i < length (transformedData bodies)"
    and "englishName (filter survives bodies ! i) = None"
  shows "o_name (transformedData bodies ! i) = None
       \<and> (\<forall>ds s c. transformedData bodies ! i \<in> set ds \<longrightarrow> results ds s c = Inl TypeError)"
proof (intro conjI allI impI)
  from assms show n: "o_name (transformedData bodies ! i) = None"
    by (simp add: nth_transformedData transform_def)
  fix ds s c
  assume "transformedData bodies ! i \<in> set ds"
  then show "results ds s c = Inl TypeError"
    using n by (rule results_throws)
qed

theorem nameless_record_breaks_filter_witness:
  "0 < length (transformedData [nameless])
   \<and> isPlanet nameless
   \<and> englishName (filter survives [nameless] ! 0) = None
   \<and> o_name (transformedData [nameless] ! 0) = None
   \<and> results (transformedData [nameless]) ''jupiter'' ''planet'' = Inl TypeError"
proof -
  have s: "survives nameless" by (simp add: survives_def nameless_def)
  have len: "0 < length (transformedData [nameless])"
    by (simp add: length_transformedData s)
  have e: "englishName (filter survives [nameless] ! 0) = None"
    by (simp add: s) (simp add: nameless_def)
  have m: "transformedData [nameless] ! 0 \<in> set (transformedData [nameless])"
    using len by simp
  have p: "isPlanet nameless" by (simp add: nameless_def)
  from nameless_record_breaks_filter [OF len e] m len e p show ?thesis
    by blast
qed

text \<open>
  C10. A surviving record whose semi-major axis is present and equal to 0 gets the
  distance \<open>'Unknown'\<close>, and one whose mean radius is present and equal to 0 gets the
  diameter \<open>'Unknown'\<close>: the conditionals test the value, and 0 is falsy.
\<close>

theorem zero_field_is_Unknown:
  assumes "i < length (transformedData bodies)"
  shows "(semimajorAxis (filter survives bodies ! i) = Some (Finite 0) \<longrightarrow>
            o_distanceFromSun (transformedData bodies ! i) = JStr ''Unknown'')
       \<and> (meanRadius (filter survives bodies ! i) = Some (Finite 0) \<longrightarrow>
            o_diameter (transformedData bodies ! i) = JStr ''Unknown'')"
  using assms by (simp add: nth_transformedData transform_def)

theorem zero_field_is_Unknown_witness:
  "0 < length (transformedData [still_body])
   \<and> semimajorAxis (filter survives [still_body] ! 0) = Some (Finite 0)
   \<and> meanRadius (filter survives [still_body] ! 0) = Some (Finite 0)
   \<and> o_distanceFromSun (transformedData [still_body] ! 0) = JStr ''Unknown''
   \<and> o_diameter (transformedData [still_body] ! 0) = JStr ''Unknown''"
proof -
  have s: "survives still_body" by (simp add: survives_def still_body_def)
  have h: "0 < length (transformedData [still_body])"
    by (simp add: length_transformedData s)
  have f: "semimajorAxis (filter survives [still_body] ! 0) = Some (Finite 0)"
          "meanRadius (filter survives [still_body] ! 0) = Some (Finite 0)"
    by (simp_all add: s) (simp_all add: still_body_def)
  from zero_field_is_Unknown [OF h] f h show ?thesis by blast
qed

end
